theory Spec2Isabelle
  imports Complex_Main "HOL-Library.Finite_Map" "HOL-Library.Sublist"
begin

section \<open>Time\<close>

text \<open>
  A \<^verbatim>\<open>time.Time\<close> is its reading in nanoseconds, a \<^verbatim>\<open>time.Duration\<close> is a
  signed 64-bit count of nanoseconds, held as an \<^typ>\<open>int\<close> with the wrap-around of
  the source's arithmetic written out by \<open>wrap64\<close>. \<^verbatim>\<open>Time.Sub\<close> saturates instead of
  wrapping, and \<^verbatim>\<open>time.Since(t)\<close> is \<^verbatim>\<open>time.Now().Sub(t)\<close>; the reading of the clock
  is the first argument of every function that reads it.
\<close>

type_synonym Time = int
type_synonym Duration = int

definition maxDuration :: Duration where
  "maxDuration = 2 ^ 63 - 1"

definition minDuration :: Duration where
  "minDuration = - (2 ^ 63)"

definition wrap64 :: "int \<Rightarrow> Duration" where
  "wrap64 x = (x + 2 ^ 63) mod 2 ^ 64 - 2 ^ 63"

definition Millisecond :: Duration where
  "Millisecond = 1000000"

definition Second :: Duration where
  "Second = 1000 * Millisecond"

definition Minute :: Duration where
  "Minute = 60 * Second"

definition Since :: "Time \<Rightarrow> Time \<Rightarrow> Duration" where
  "Since now t =
     (let d = now - t
      in if d > maxDuration then maxDuration
         else if d < minDuration then minDuration
         else d)"

section \<open>Search server (web-server.go): result cache\<close>

text \<open>
  The search server's \<^verbatim>\<open>Article\<close>; the crawler declares a struct of the same name
  with other fields, so this one carries the name of the engine's hit it is decoded from.
\<close>

record SearchArticle =
  hit_ID :: string
  hit_Title :: string
  hit_Body :: string
  hit_CreatedAt :: string
  hit_UpdatedAt :: string
  hit_HTMLURL :: string
  hit_SectionID :: int

record SearchResult =
  Articles :: "SearchArticle list"
  Total :: int
  Query :: string
  CurrentPage :: int
  TotalPages :: int
  HasPrev :: bool
  HasNext :: bool
  PrevPage :: int
  NextPage :: int
  ResultsPerPage :: int
  Suggestions :: "string list"
  SearchTime :: string

text \<open>The zero value \<^verbatim>\<open>SearchResult{}\<close>.\<close>

definition SearchResult_zero :: SearchResult where
  "SearchResult_zero =
     \<lparr>Articles = [], Total = 0, Query = [], CurrentPage = 0, TotalPages = 0,
      HasPrev = False, HasNext = False, PrevPage = 0, NextPage = 0,
      ResultsPerPage = 0, Suggestions = [], SearchTime = []\<rparr>"

record CacheEntry =
  Result :: SearchResult
  Timestamp :: Time

text \<open>
  \<^verbatim>\<open>searchCache.cache\<close>, a \<^verbatim>\<open>map[string]CacheEntry\<close>: a finite map, whose \<^verbatim>\<open>len\<close>
  is the number of its keys. The mutex is not modelled: each operation below runs
  under it from its first line to its last.
\<close>

type_synonym SearchCache = "(string, CacheEntry) fmap"

definition len :: "SearchCache \<Rightarrow> nat" where
  "len cache = fcard (fmdom cache)"

definition expired :: "Time \<Rightarrow> CacheEntry \<Rightarrow> bool" where
  "expired now entry \<longleftrightarrow> Since now (Timestamp entry) > 5 * Minute"

text \<open>
  \<^verbatim>\<open>getCachedResult\<close> returns the result, the \<^verbatim>\<open>found\<close> flag and the cache, from
  which an entry found expired has been deleted.
\<close>

definition getCachedResult ::
  "Time \<Rightarrow> string \<Rightarrow> SearchCache \<Rightarrow> (SearchResult \<times> bool) \<times> SearchCache" where
  "getCachedResult now key cache =
     (case fmlookup cache key of
        None \<Rightarrow> ((SearchResult_zero, False), cache)
      | Some entry \<Rightarrow>
          if expired now entry
          then ((SearchResult_zero, False), fmdrop key cache)
          else ((Result entry, True), cache))"

text \<open>
  The sweep of \<^verbatim>\<open>cacheResult\<close> ranges over the map and deletes the entry in hand
  when it has expired; the order of the range does not change what is left. The
  source reads the clock for each entry of the sweep and once more for the timestamp
  of the new entry, all under the lock; the model takes one reading for the call.
\<close>

definition sweep :: "Time \<Rightarrow> SearchCache \<Rightarrow> SearchCache" where
  "sweep now cache =
     fmfilter (\<lambda>k. case fmlookup cache k of
                      None \<Rightarrow> False
                    | Some v \<Rightarrow> \<not> expired now v) cache"

definition cacheResult ::
  "Time \<Rightarrow> string \<Rightarrow> SearchResult \<Rightarrow> SearchCache \<Rightarrow> SearchCache" where
  "cacheResult now key result cache =
     fmupd key \<lparr>Result = result, Timestamp = now\<rparr>
       (if len cache > 1000 then sweep now cache else cache)"

text \<open>The keys of the entries that have expired at \<open>now\<close>.\<close>

definition expired_keys :: "Time \<Rightarrow> SearchCache \<Rightarrow> string fset" where
  "expired_keys now cache =
     ffilter (\<lambda>k. case fmlookup cache k of
                     None \<Rightarrow> False
                   | Some v \<Rightarrow> expired now v) (fmdom cache)"

section \<open>Strings\<close>

text \<open>
  A Go string is its sequence of bytes. \<^verbatim>\<open>strings.HasPrefix\<close>, \<^verbatim>\<open>strings.HasSuffix\<close>
  and \<^verbatim>\<open>strings.Contains\<close> compare bytes.
\<close>

definition HasPrefix :: "string \<Rightarrow> string \<Rightarrow> bool" where
  "HasPrefix s p = prefix p s"

definition HasSuffix :: "string \<Rightarrow> string \<Rightarrow> bool" where
  "HasSuffix s p = suffix p s"

definition Contains :: "string \<Rightarrow> string \<Rightarrow> bool" where
  "Contains s substr = sublist substr s"

text \<open>
  \<^verbatim>\<open>strings.Trim(s, cutset)\<close> for a cutset of ASCII characters (the source's cutset is
  the double quote): every leading and every trailing byte of the cutset goes.
\<close>

definition Trim :: "string \<Rightarrow> string \<Rightarrow> string" where
  "Trim s cutset =
     rev (dropWhile (\<lambda>c. c \<in> set cutset) (rev (dropWhile (\<lambda>c. c \<in> set cutset) s)))"

text \<open>
  The UTF-8 encodings of the code points for which \<^verbatim>\<open>unicode.IsSpace\<close> holds: tab to
  carriage return, space, U+0085, U+00A0, U+1680, U+2000 to U+200A, U+2028, U+2029,
  U+202F, U+205F and U+3000.
\<close>

definition space_runes :: "string list" where
  "space_runes =
     [[CHR 0x09], [CHR 0x0A], [CHR 0x0B], [CHR 0x0C], [CHR 0x0D], [CHR 0x20],
      [CHR 0xC2, CHR 0x85], [CHR 0xC2, CHR 0xA0], [CHR 0xE1, CHR 0x9A, CHR 0x80],
      [CHR 0xE2, CHR 0x80, CHR 0x80], [CHR 0xE2, CHR 0x80, CHR 0x81],
      [CHR 0xE2, CHR 0x80, CHR 0x82], [CHR 0xE2, CHR 0x80, CHR 0x83],
      [CHR 0xE2, CHR 0x80, CHR 0x84], [CHR 0xE2, CHR 0x80, CHR 0x85],
      [CHR 0xE2, CHR 0x80, CHR 0x86], [CHR 0xE2, CHR 0x80, CHR 0x87],
      [CHR 0xE2, CHR 0x80, CHR 0x88], [CHR 0xE2, CHR 0x80, CHR 0x89],
      [CHR 0xE2, CHR 0x80, CHR 0x8A], [CHR 0xE2, CHR 0x80, CHR 0xA8],
      [CHR 0xE2, CHR 0x80, CHR 0xA9], [CHR 0xE2, CHR 0x80, CHR 0xAF],
      [CHR 0xE2, CHR 0x81, CHR 0x9F], [CHR 0xE3, CHR 0x80, CHR 0x80]]"

text \<open>Drops leading occurrences of the given byte sequences for as long as one leads.\<close>

function strip_leading :: "string list \<Rightarrow> string \<Rightarrow> string" where
  "strip_leading ps s =
     (case find (\<lambda>p. p \<noteq> [] \<and> prefix p s) ps of
        None \<Rightarrow> s
      | Some p \<Rightarrow> strip_leading ps (drop (length p) s))"
  by pat_completeness auto
termination
proof (relation "measure (\<lambda>(ps, s). length s)")
  show "wf (measure (\<lambda>(ps, s). length s))" by simp
next
  fix ps :: "string list" and s p :: string
  assume "find (\<lambda>p. p \<noteq> [] \<and> prefix p s) ps = Some p"
  then have "p \<noteq> []" and "prefix p s"
    by (auto simp: find_Some_iff)
  then have "s \<noteq> []" by auto
  with \<open>p \<noteq> []\<close> show "((ps, drop (length p) s), (ps, s)) \<in> measure (\<lambda>(ps, s). length s)"
    by simp
qed

text \<open>
  \<^verbatim>\<open>strings.TrimSpace\<close>: the leading and the trailing white-space runes go. A byte
  that starts no white-space encoding stops the trimming on its side, as the
  decoder's \<^verbatim>\<open>RuneError\<close> does.
\<close>

definition TrimSpace :: "string \<Rightarrow> string" where
  "TrimSpace s = rev (strip_leading (map rev space_runes) (rev (strip_leading space_runes s)))"

text \<open>\<^verbatim>\<open>strings.Split(s, sep)\<close> for a separator of one byte.\<close>

fun Split :: "string \<Rightarrow> char \<Rightarrow> string list" where
  "Split [] sep = [[]]"
| "Split (c # s) sep =
     (if c = sep then [] # Split s sep
      else case Split s sep of
             [] \<Rightarrow> [[c]]
           | piece # pieces \<Rightarrow> (c # piece) # pieces)"

text \<open>
  \<^verbatim>\<open>strings.ReplaceAll(s, old, new)\<close>: the occurrences of \<open>old\<close> are replaced from
  the left, none overlapping. The source passes non-empty literals for \<open>old\<close>; on
  an empty \<open>old\<close> the model leaves \<open>s\<close> as it is, which is not what Go does.
\<close>

fun ReplaceAll :: "string \<Rightarrow> string \<Rightarrow> string \<Rightarrow> string" where
  "ReplaceAll [] old new = []"
| "ReplaceAll (c # s) old new =
     (if old \<noteq> [] \<and> prefix old (c # s)
      then new @ ReplaceAll (drop (length old - 1) s) old new
      else c # ReplaceAll s old new)"

lemma length_ReplaceAll_le:
  "length new \<le> length old \<Longrightarrow> length (ReplaceAll s old new) \<le> length s"
proof (induction s old new rule: ReplaceAll.induct)
  case (1 old new)
  then show ?case by simp
next
  case (2 c s old new)
  show ?case
  proof (cases "old \<noteq> [] \<and> prefix old (c # s)")
    case True
    then have "length old \<le> Suc (length s)"
      by (auto dest: prefix_length_le)
    moreover have "length (ReplaceAll (drop (length old - 1) s) old new)
        \<le> length s - (length old - 1)"
      using "2.IH"(1) [OF True] "2.prems" by simp
    ultimately show ?thesis
      using True "2.prems" by (cases old) auto
  next
    case False
    then show ?thesis
      using "2.IH"(2) "2.prems" by auto
  qed
qed

lemma length_ReplaceAll_less:
  "length new < length old \<Longrightarrow> Contains s old \<Longrightarrow> length (ReplaceAll s old new) < length s"
proof (induction s old new rule: ReplaceAll.induct)
  case (1 old new)
  then show ?case by (simp add: Contains_def)
next
  case (2 c s old new)
  have old: "old \<noteq> []" using "2.prems" by auto
  show ?case
  proof (cases "prefix old (c # s)")
    case True
    then have "length old \<le> Suc (length s)"
      by (auto dest: prefix_length_le)
    moreover have "length (ReplaceAll (drop (length old - 1) s) old new)
        \<le> length s - (length old - 1)"
      using length_ReplaceAll_le [of new old "drop (length old - 1) s"] "2.prems" by simp
    ultimately show ?thesis
      using True old "2.prems" by (cases old) auto
  next
    case False
    then have "Contains s old"
      using "2.prems" by (simp add: Contains_def sublist_Cons_right)
    then show ?thesis
      using "2.IH"(2) "2.prems" False by auto
  qed
qed

section \<open>Crawler: the fetch worker (scrapeFullArticle)\<close>

record Article =
  ID :: string
  Title :: string
  Body :: string
  URL :: string
  CreatedAt :: string
  UpdatedAt :: string

text \<open>The two loops of \<^verbatim>\<open>cleanHTML\<close>, each run until its pattern is gone.\<close>

function collapse_newlines :: "string \<Rightarrow> string" where
  "collapse_newlines html =
     (if Contains html ''\<newline>\<newline>\<newline>''
      then collapse_newlines
             (ReplaceAll html ''\<newline>\<newline>\<newline>'' ''\<newline>\<newline>'')
      else html)"
  by pat_completeness auto
termination collapse_newlines
  by (relation "measure length") (auto intro: length_ReplaceAll_less)

function collapse_spaces :: "string \<Rightarrow> string" where
  "collapse_spaces html =
     (if Contains html ''  ''
      then collapse_spaces (ReplaceAll html ''  '' '' '')
      else html)"
  by pat_completeness auto
termination collapse_spaces
  by (relation "measure length") (auto intro: length_ReplaceAll_less)

definition cleanHTML :: "string \<Rightarrow> string" where
  "cleanHTML html =
     (let html = ReplaceAll html ''<div></div>'' [];
          html = ReplaceAll html ''<div> </div>'' [];
          html = ReplaceAll html ''<p></p>'' [];
          html = ReplaceAll html ''<p> </p>'' [];
          html = ReplaceAll html ''<span></span>'' [];
          html = ReplaceAll html ''<span> </span>'' [];
          html = collapse_newlines html;
          html = collapse_spaces html
      in TrimSpace html)"

text \<open>
  What the collector hands to the callbacks of one visit, in document order: the text
  of every element matched by the header selector, the \<^verbatim>\<open>style\<close> attribute and the
  text of every element matched by the fallback title selector, the result of
  \<^verbatim>\<open>e.DOM.Html()\<close> (\<open>None\<close> for its error) for every element matched by the body
  selector and by the fallback body selector, and the \<^verbatim>\<open>datetime\<close> attribute of
  every element matched by the metadata selector. Locating the elements is the
  collector's work and is not modelled.
\<close>

record Page =
  header_h3 :: "string list"
  title_elems :: "(string \<times> string) list"
  body_elems :: "string option list"
  fallback_body_elems :: "string option list"
  time_elems :: "string list"

text \<open>
  One visit: the error \<^verbatim>\<open>c.Visit\<close> returned (a malformed URL among them), the error
  handed to \<^verbatim>\<open>OnError\<close> (a failed connection, a timeout, a non-success status), and
  the page.
\<close>

record Visit =
  visit_err :: "string option"
  scrape_err :: "string option"
  page :: Page

text \<open>The bullet U+2022 in UTF-8.\<close>

definition bullet :: string where
  "bullet = [CHR 0xE2, CHR 0x80, CHR 0xA2]"

definition isDigit :: "char \<Rightarrow> bool" where
  "isDigit c \<longleftrightarrow> c \<in> set ''0123456789''"

text \<open>
  The first submatch of the leftmost match of \<^verbatim>\<open>/articles/(\d+)\<close>: the digits after
  the first \<^verbatim>\<open>/articles/\<close> that a digit follows.
\<close>

fun article_id :: "string \<Rightarrow> string option" where
  "article_id [] = None"
| "article_id (c # s) =
     (let digits = takeWhile isDigit (drop 10 (c # s))
      in if prefix ''/articles/'' (c # s) \<and> digits \<noteq> [] then Some digits
         else article_id s)"

definition title_line :: "string \<Rightarrow> bool" where
  "title_line line \<longleftrightarrow>
     line \<noteq> [] \<and>
     \<not> Contains line ''Published'' \<and>
     \<not> Contains line ''Last Updated'' \<and>
     \<not> Contains line bullet \<and>
     line \<noteq> ''How can we help?'' \<and>
     line \<noteq> ''Knowledge Base''"

text \<open>The callback on \<^verbatim>\<open>header.article-header h3\<close>, given the element's text.\<close>

definition on_header_h3 :: "string \<Rightarrow> Article \<Rightarrow> Article" where
  "on_header_h3 elemText article =
     (if Title article = [] then
        (let fullText = TrimSpace elemText
         in if fullText \<noteq> [] then
              (case find title_line (map TrimSpace (Split fullText CHR ''\<newline>'')) of
                 Some line \<Rightarrow> article\<lparr>Title := line\<rparr>
               | None \<Rightarrow> article)
            else article)
      else article)"

text \<open>The callback on the fallback title selector, given the style and the text.\<close>

definition on_title :: "string \<times> string \<Rightarrow> Article \<Rightarrow> Article" where
  "on_title e article =
     (if Title article = [] then
        (if \<not> Contains (fst e) ''display: none'' then
           (let title = TrimSpace (snd e)
            in if title \<noteq> [] \<and> title \<noteq> ''How can we help?'' \<and> title \<noteq> ''Knowledge Base''
               then article\<lparr>Title := title\<rparr>
               else article)
         else article)
      else article)"

text \<open>The callback on either body selector.\<close>

definition on_body :: "string option \<Rightarrow> Article \<Rightarrow> Article" where
  "on_body html article =
     (if Body article = [] then
        (case html of
           Some h \<Rightarrow> article\<lparr>Body := cleanHTML h\<rparr>
         | None \<Rightarrow> article)
      else article)"

text \<open>The callback on the metadata selector.\<close>

definition on_time :: "string \<Rightarrow> Article \<Rightarrow> Article" where
  "on_time datetime article =
     (if datetime \<noteq> [] then
        article\<lparr>CreatedAt := (if CreatedAt article = [] then datetime else CreatedAt article),
                UpdatedAt := datetime\<rparr>
      else article)"

text \<open>
  The article after the collector has run the callbacks, each over its matches, in
  the order of their registration.
\<close>

definition collect :: "string \<Rightarrow> Page \<Rightarrow> Article" where
  "collect articleURL p =
     (let article = \<lparr>ID = (case article_id articleURL of Some i \<Rightarrow> i | None \<Rightarrow> []),
                     Title = [], Body = [], URL = articleURL,
                     CreatedAt = [], UpdatedAt = []\<rparr>;
          article = fold on_header_h3 (header_h3 p) article;
          article = fold on_title (title_elems p) article;
          article = fold on_body (body_elems p) article;
          article = fold on_body (fallback_body_elems p) article
      in fold on_time (time_elems p) article)"

text \<open>
  \<^verbatim>\<open>scrapeFullArticle\<close>. An error is its message; \<open>now1\<close> and \<open>now2\<close> are the two
  readings of the clock, formatted, that stand in for missing timestamps. The request
  timeout bounds the visit and has no other part in the result.
\<close>

definition scrapeFullArticle :: "string \<Rightarrow> string \<Rightarrow> string \<Rightarrow> Visit \<Rightarrow> string + Article" where
  "scrapeFullArticle now1 now2 articleURL v =
     (case visit_err v of
        Some err \<Rightarrow> Inl (''error visiting page: '' @ err)
      | None \<Rightarrow>
          (let article = collect articleURL (page v)
           in case scrape_err v of
                Some err \<Rightarrow> Inl (''scraping error: '' @ err)
              | None \<Rightarrow>
                  if Title article = [] \<or> Title article = ''How can we help?''
                     \<or> Title article = ''Knowledge Base''
                  then Inl ''no meaningful title found on page''
                  else if Body article = [] then Inl ''no content found on page''
                  else Inr (article
                         \<lparr>CreatedAt := (if CreatedAt article = [] then now1
                                        else CreatedAt article),
                          UpdatedAt := (if UpdatedAt article = [] then now2
                                        else UpdatedAt article)\<rparr>)))"

section \<open>Crawler: the retry loop of one target\<close>

record Config =
  FetchConcurrency :: int
  FetchDelay :: Duration
  MaxRetries :: int
  RequestTimeout :: Duration

record FetchResult =
  Article :: "Article option"
  Error :: "string option"
  URL :: string
  Retries :: int

text \<open>The configuration \<^verbatim>\<open>main\<close> builds.\<close>

definition main_config :: Config where
  "main_config =
     \<lparr>FetchConcurrency = 15, FetchDelay = 200 * Millisecond, MaxRetries = 3,
      RequestTimeout = 30 * Second\<rparr>"

text \<open>
  What one worker does to the world, in order: it sleeps and it calls
  \<^verbatim>\<open>scrapeFullArticle\<close>. The progress messages it prints are left out.
\<close>

datatype event = Sleep Duration | Scrape string

text \<open>
  \<^verbatim>\<open>rand.Intn(n)\<close> for \<open>n > 0\<close> reduces a raw draw modulo \<open>n\<close>; the raw draw is an
  argument of the worker.
\<close>

definition Intn :: "int \<Rightarrow> nat \<Rightarrow> int" where
  "Intn n raw = int raw mod n"

text \<open>
  The loop \<^verbatim>\<open>for attempt := 0; attempt <= config.MaxRetries; attempt++\<close> of the
  goroutine, from \<open>attempt\<close> on, with \<open>lastErr\<close> and the events so far; \<open>scrape k\<close> is
  what the call to \<^verbatim>\<open>scrapeFullArticle\<close> returns at attempt \<open>k\<close>. The counter is an
  \<^typ>\<open>int\<close>: it runs from 0 to \<open>MaxRetries + 1\<close> at most and does not wrap for any
  limit below the largest \<^verbatim>\<open>int\<close>.
\<close>

function retry_loop ::
  "Config \<Rightarrow> nat \<Rightarrow> (int \<Rightarrow> string + Article) \<Rightarrow> string \<Rightarrow> int \<Rightarrow> string option \<Rightarrow>
     event list \<Rightarrow> FetchResult \<times> event list" where
  "retry_loop config raw scrape articleURL attempt lastErr evs =
     (if attempt \<le> MaxRetries config then
        (let evs = (if attempt > 0
                    then evs @ [Sleep (wrap64 (attempt * FetchDelay config))]
                    else evs);
             evs = (if attempt = 0
                    then evs @ [Sleep (wrap64 (FetchDelay config
                                         + wrap64 (Intn 300 raw * Millisecond)))]
                    else evs);
             evs = evs @ [Scrape articleURL]
         in case scrape attempt of
              Inr article \<Rightarrow>
                (\<lparr>Article = Some article, Error = None, URL = articleURL,
                  Retries = attempt\<rparr>, evs)
            | Inl err \<Rightarrow>
                retry_loop config raw scrape articleURL (attempt + 1) (Some err) evs)
      else
        (\<lparr>Article = None, Error = lastErr, URL = articleURL,
          Retries = MaxRetries config\<rparr>, evs))"
  by pat_completeness auto
termination
  by (relation "measure (\<lambda>(config, raw, scrape, articleURL, attempt, lastErr, evs).
        nat (MaxRetries config + 1 - attempt))") auto

text \<open>
  The body of the goroutine between acquiring and releasing the semaphore: the
  \<^verbatim>\<open>FetchResult\<close> it sends on the results channel, and its events.
\<close>

definition worker ::
  "Config \<Rightarrow> nat \<Rightarrow> (int \<Rightarrow> string + Article) \<Rightarrow> string \<Rightarrow> FetchResult \<times> event list" where
  "worker config raw scrape articleURL = retry_loop config raw scrape articleURL 0 None []"

text \<open>The number of calls to \<^verbatim>\<open>scrapeFullArticle\<close> among the events.\<close>

fun attempts :: "event list \<Rightarrow> nat" where
  "attempts [] = 0"
| "attempts (Sleep d # evs) = attempts evs"
| "attempts (Scrape u # evs) = Suc (attempts evs)"

text \<open>
  For each call to \<^verbatim>\<open>scrapeFullArticle\<close> among the events, in order, the sleeps
  since the call before it.
\<close>

fun delays_from :: "Duration list \<Rightarrow> event list \<Rightarrow> Duration list list" where
  "delays_from ds [] = []"
| "delays_from ds (Sleep d # evs) = delays_from (ds @ [d]) evs"
| "delays_from ds (Scrape u # evs) = ds # delays_from [] evs"

definition delays :: "event list \<Rightarrow> Duration list list" where
  "delays evs = delays_from [] evs"

section \<open>Crawler: the workers and the semaphore (fetchArticlesConcurrently)\<close>

text \<open>
  Where a goroutine stands: blocked on the send to the semaphore; at the head of the
  retry loop with its counter and \<^verbatim>\<open>lastErr\<close>; past the sleeps, inside
  \<^verbatim>\<open>scrapeFullArticle\<close>; about to send its result; with its result sent and the
  deferred receive from the semaphore to run; finished.
\<close>

datatype pc =
    Acquire
  | Attempt int "string option"
  | InFlight int "string option"
  | Emit FetchResult
  | Release
  | Finished

record crawl =
  pcs :: "pc list"
  semaphore :: nat
  results :: "FetchResult list"

text \<open>
  The state once the goroutines are started, one for each URL. \<^verbatim>\<open>make\<close> panics on a
  negative capacity, so a negative \<^verbatim>\<open>FetchConcurrency\<close> starts nothing. \<open>semaphore\<close> is
  the number of tokens in the channel's buffer.
\<close>

definition fetchArticlesConcurrently :: "string list \<Rightarrow> Config \<Rightarrow> crawl option" where
  "fetchArticlesConcurrently articleURLs config =
     (if FetchConcurrency config < 0 then None
      else Some \<lparr>pcs = map (\<lambda>url. Acquire) articleURLs, semaphore = 0, results = []\<rparr>)"

text \<open>
  One step of one goroutine. A send on the semaphore goes through when the buffer
  has room (with a capacity of 0 it needs a receiver, and every receive is deferred
  until after the sender's own send, so it never goes through). What
  \<^verbatim>\<open>scrapeFullArticle\<close> returns is left open. The results channel has room for every
  result, so its send does not block.
\<close>

inductive step :: "string list \<Rightarrow> Config \<Rightarrow> crawl \<Rightarrow> crawl \<Rightarrow> bool"
  for articleURLs :: "string list" and config :: Config where
  acquire:
    "i < length (pcs s) \<Longrightarrow> pcs s ! i = Acquire \<Longrightarrow>
     int (semaphore s) < FetchConcurrency config \<Longrightarrow>
     step articleURLs config s
       (s\<lparr>pcs := (pcs s)[i := Attempt 0 None], semaphore := Suc (semaphore s)\<rparr>)"
| enter:
    "i < length (pcs s) \<Longrightarrow> pcs s ! i = Attempt k e \<Longrightarrow> k \<le> MaxRetries config \<Longrightarrow>
     step articleURLs config s (s\<lparr>pcs := (pcs s)[i := InFlight k e]\<rparr>)"
| exhausted:
    "i < length (pcs s) \<Longrightarrow> pcs s ! i = Attempt k e \<Longrightarrow> \<not> k \<le> MaxRetries config \<Longrightarrow>
     step articleURLs config s
       (s\<lparr>pcs := (pcs s)[i := Emit \<lparr>Article = None, Error = e, URL = articleURLs ! i,
                                      Retries = MaxRetries config\<rparr>]\<rparr>)"
| success:
    "i < length (pcs s) \<Longrightarrow> pcs s ! i = InFlight k e \<Longrightarrow>
     step articleURLs config s
       (s\<lparr>pcs := (pcs s)[i := Emit \<lparr>Article = Some article, Error = None,
                                      URL = articleURLs ! i, Retries = k\<rparr>]\<rparr>)"
| failure:
    "i < length (pcs s) \<Longrightarrow> pcs s ! i = InFlight k e \<Longrightarrow>
     step articleURLs config s (s\<lparr>pcs := (pcs s)[i := Attempt (k + 1) (Some err)]\<rparr>)"
| send:
    "i < length (pcs s) \<Longrightarrow> pcs s ! i = Emit r \<Longrightarrow>
     step articleURLs config s (s\<lparr>pcs := (pcs s)[i := Release], results := results s @ [r]\<rparr>)"
| release:
    "i < length (pcs s) \<Longrightarrow> pcs s ! i = Release \<Longrightarrow>
     step articleURLs config s
       (s\<lparr>pcs := (pcs s)[i := Finished], semaphore := semaphore s - 1\<rparr>)"

fun in_flight_pc :: "pc \<Rightarrow> bool" where
  "in_flight_pc (InFlight k e) = True"
| "in_flight_pc other = False"

fun holding_pc :: "pc \<Rightarrow> bool" where
  "holding_pc Acquire = False"
| "holding_pc Finished = False"
| "holding_pc other = True"

text \<open>The goroutines inside \<^verbatim>\<open>scrapeFullArticle\<close>, and those holding a token.\<close>

definition in_flight :: "crawl \<Rightarrow> nat" where
  "in_flight s = length (filter in_flight_pc (pcs s))"

definition holding :: "crawl \<Rightarrow> nat" where
  "holding s = length (filter holding_pc (pcs s))"

section \<open>Search server: the query compiler\<close>

text \<open>
  The value a \<^verbatim>\<open>map[string]interface{}\<close> literal of the source denotes, as it is
  marshalled: an object is the list of its keys and values, in the order of the
  literal; a number with a fraction is the fraction its decimal literal denotes.
\<close>

datatype json =
    JString string
  | JInt int
  | JNumber rat
  | JArray "json list"
  | JObject "(string \<times> json) list"

text \<open>The value under a key of an object, and the value at the end of a path of keys.\<close>

fun field :: "string \<Rightarrow> json \<Rightarrow> json option" where
  "field k (JObject kvs) = map_of kvs k"
| "field k other = None"

fun path :: "string list \<Rightarrow> json \<Rightarrow> json option" where
  "path [] j = Some j"
| "path (k # ks) j = (case field k j of None \<Rightarrow> None | Some j' \<Rightarrow> path ks j')"

definition buildPhraseQuery :: "string \<Rightarrow> int \<Rightarrow> int \<Rightarrow> json" where
  "buildPhraseQuery query from size' =
     JObject
      [(''query'', JObject
         [(''multi_match'', JObject
            [(''query'', JString query),
             (''fields'', JArray [JString ''title^3'', JString ''body^1'']),
             (''type'', JString ''phrase'')])]),
       (''from'', JInt from),
       (''size'', JInt size'),
       (''sort'', JArray
          [JObject [(''_score'', JObject [(''order'', JString ''desc'')])],
           JObject [(''updated_at'', JObject [(''order'', JString ''desc'')])]]),
       (''highlight'', JObject
          [(''fields'', JObject [(''title'', JObject []), (''body'', JObject [])]),
           (''pre_tags'', JArray [JString ''<mark>'']),
           (''post_tags'', JArray [JString ''</mark>''])])]"

text \<open>The request that \<^verbatim>\<open>buildEnhancedQuery\<close> returns for a query that is no phrase.\<close>

definition blended_request :: "string \<Rightarrow> int \<Rightarrow> int \<Rightarrow> json" where
  "blended_request query from size' =
     JObject
      [(''query'', JObject
         [(''function_score'', JObject
            [(''query'', JObject
               [(''bool'', JObject
                  [(''should'', JArray
                     [JObject [(''multi_match'', JObject
                        [(''query'', JString query),
                         (''fields'', JArray [JString ''title^5'', JString ''body^2'']),
                         (''type'', JString ''phrase''),
                         (''boost'', JInt 10)])],
                      JObject [(''multi_match'', JObject
                        [(''query'', JString query),
                         (''fields'', JArray [JString ''title^3'', JString ''body^1'']),
                         (''fuzziness'', JString ''AUTO''),
                         (''boost'', JInt 5)])],
                      JObject [(''multi_match'', JObject
                        [(''query'', JString query),
                         (''fields'', JArray [JString ''title^2'', JString ''body^1'']),
                         (''type'', JString ''phrase_prefix''),
                         (''boost'', JInt 3)])]]),
                   (''minimum_should_match'', JInt 1)])]),
             (''boost_mode'', JString ''multiply''),
             (''functions'', JArray
                [JObject
                   [(''gauss'', JObject
                      [(''updated_at'', JObject
                         [(''scale'', JString ''30d''), (''decay'', JNumber (1 / 2))])]),
                    (''weight'', JNumber (12 / 10))]])])]),
       (''from'', JInt from),
       (''size'', JInt size'),
       (''sort'', JArray [JObject [(''_score'', JObject [(''order'', JString ''desc'')])]]),
       (''highlight'', JObject
          [(''fields'', JObject
              [(''title'', JObject [(''fragment_size'', JInt 150)]),
               (''body'', JObject [(''fragment_size'', JInt 300)])]),
           (''pre_tags'', JArray [JString ''<mark>'']),
           (''post_tags'', JArray [JString ''</mark>''])])]"

text \<open>The double quote.\<close>

definition dquote :: string where
  "dquote = [CHR 0x22]"

text \<open>
  \<^verbatim>\<open>buildEnhancedQuery\<close>; its third parameter is \<^verbatim>\<open>size\<close> in the source.
\<close>

definition buildEnhancedQuery :: "string \<Rightarrow> int \<Rightarrow> int \<Rightarrow> json" where
  "buildEnhancedQuery query from size' =
     (let isPhrase = HasPrefix query dquote \<and> HasSuffix query dquote
      in if isPhrase then buildPhraseQuery (Trim query dquote) from size'
         else blended_request query from size')"


section \<open>Search server: the search facade (searchElasticsearch)\<close>

text \<open>The verb \<^verbatim>\<open>%d\<close> of \<^verbatim>\<open>fmt.Sprintf\<close>: an integer in decimal.\<close>

fun digits :: "nat \<Rightarrow> string" where
  "digits n =
     (if n < 10 then [char_of (48 + n)]
      else digits (n div 10) @ [char_of (48 + n mod 10)])"

definition fmt_d :: "int \<Rightarrow> string" where
  "fmt_d i = (if i < 0 then CHR ''-'' # digits (nat (- i)) else digits (nat i))"


text \<open>
  What the engine answers: the status, which the source does not read, and the body.
\<close>

record HTTPResponse =
  StatusCode :: int
  ResponseBody :: string

text \<open>
  \<^verbatim>\<open>SearchResponse\<close>, the nested struct the body is decoded into: the field
  \<^verbatim>\<open>Hits.Total.Value\<close> and the list \<^verbatim>\<open>Hits.Hits\<close> of hits, each with its source and
  its score.
\<close>

record SearchHit =
  Source :: SearchArticle
  Score :: rat

record SearchResponse =
  Hits_Total_Value :: int
  Hits_Hits :: "SearchHit list"

text \<open>
  \<^verbatim>\<open>searchElasticsearch\<close>. Its collaborators are arguments: \<open>md5hex\<close> is the MD5 sum
  printed in hexadecimal; \<open>post\<close> is the request to the engine, from the compiled
  query (which \<^verbatim>\<open>json.Marshal\<close> encodes without an error) to the error of
  \<^verbatim>\<open>client.Post\<close> or the response, a response of any status being no error;
  \<open>decode\<close> is the JSON decoder on the body. \<open>now1\<close> is the clock at the lookup and
  \<open>now2\<close> the clock at the store. The result is the error or the articles and the
  total, and the cache.
\<close>

definition searchElasticsearch ::
  "(string \<Rightarrow> string) \<Rightarrow> (json \<Rightarrow> string + HTTPResponse) \<Rightarrow> (string \<Rightarrow> string + SearchResponse) \<Rightarrow>
   Time \<Rightarrow> Time \<Rightarrow> string \<Rightarrow> int \<Rightarrow> int \<Rightarrow> SearchCache \<Rightarrow>
   (string + SearchArticle list \<times> int) \<times> SearchCache" where
  "searchElasticsearch md5hex post decode now1 now2 query from size' cache =
     (let cacheKey = md5hex (query @ ''-'' @ fmt_d from @ ''-'' @ fmt_d size');
          (looked, cache) = getCachedResult now1 cacheKey cache
      in if snd looked then (Inr (Articles (fst looked), Total (fst looked)), cache)
         else
           (let esQuery = buildEnhancedQuery query from size'
            in case post esQuery of
                 Inl err \<Rightarrow> (Inl err, cache)
               | Inr resp \<Rightarrow>
                   (case decode (ResponseBody resp) of
                      Inl err \<Rightarrow> (Inl err, cache)
                    | Inr searchResp \<Rightarrow>
                        (let articles = map Source (Hits_Hits searchResp);
                             result = SearchResult_zero
                               \<lparr>Articles := articles, Total := Hits_Total_Value searchResp\<rparr>
                         in (Inr (articles, Hits_Total_Value searchResp),
                             cacheResult now2 cacheKey result cache)))))"

section \<open>Properties of the result cache\<close>

lemma expired_iff: "expired now entry \<longleftrightarrow> now - Timestamp entry > 5 * Minute"
  by (simp add: expired_def Since_def Let_def maxDuration_def minDuration_def
      Minute_def Second_def Millisecond_def)

lemma fmlookup_sweep:
  "fmlookup (sweep now cache) x =
     (case fmlookup cache x of
        None \<Rightarrow> None
      | Some v \<Rightarrow> if expired now v then None else Some v)"
  by (simp add: sweep_def split: option.splits)

lemma fmdom_sweep: "fmdom (sweep now cache) = fmdom cache |-| expired_keys now cache"
proof (rule fset_eqI)
  fix x
  show "x |\<in>| fmdom (sweep now cache) \<longleftrightarrow> x |\<in>| fmdom cache |-| expired_keys now cache"
    by (cases "fmlookup cache x")
      (auto simp: fmlookup_dom_iff fmlookup_sweep expired_keys_def)
qed

text \<open>
  C6. A store of \<open>r\<close> under \<open>k\<close> at time \<open>t0\<close>, followed at once by a lookup of \<open>k\<close>
  at time \<open>t1\<close>: when no more than five minutes lie between them the lookup returns
  \<open>r\<close> unchanged, and when more than five minutes lie between them it is a miss.
\<close>

theorem cache_round_trip_and_expiry:
  "(t1 - t0 \<le> 5 * Minute \<longrightarrow>
      fst (getCachedResult t1 k (cacheResult t0 k r c)) = (r, True)) \<and>
   (t1 - t0 > 5 * Minute \<longrightarrow>
      fst (getCachedResult t1 k (cacheResult t0 k r c)) = (SearchResult_zero, False))"
  by (simp add: getCachedResult_def cacheResult_def expired_iff)

theorem cache_round_trip_and_expiry_witness:
  "(5 * Minute - 0 \<le> 5 * Minute \<and>
      fst (getCachedResult (5 * Minute) ''k'' (cacheResult 0 ''k'' SearchResult_zero fmempty))
        = (SearchResult_zero, True)) \<and>
   (5 * Minute + 1 - 0 > 5 * Minute \<and>
      fst (getCachedResult (5 * Minute + 1) ''k''
             (cacheResult 0 ''k'' (SearchResult_zero\<lparr>Total := 7\<rparr>) fmempty))
        = (SearchResult_zero, False))"
  using cache_round_trip_and_expiry [of "5 * Minute" 0 "''k''" SearchResult_zero fmempty]
    cache_round_trip_and_expiry [of "5 * Minute + 1" 0 "''k''"
      "SearchResult_zero\<lparr>Total := 7\<rparr>" fmempty]
  by simp

lemma expired_keys_subset: "expired_keys now c |\<subseteq>| fmdom c"
  by (auto simp: expired_keys_def)

text \<open>
  C7. A store into a cache of more than 1000 entries first removes the entries older
  than five minutes and no other, then inserts the new entry: afterwards the new
  entry stands under its key, and under every other key stands what stood there
  before unless it had expired. A cache of 1001 entries of which 5 have expired is
  left with those 5 removed and the new entry present: 997 entries when the key is
  new or was one of the 5, and 996 when the key had a fresh entry, which is replaced.
\<close>

theorem store_past_threshold_sweeps:
  assumes "len c > 1000"
  shows "(\<forall>x. fmlookup (cacheResult now k r c) x =
           (if x = k then Some \<lparr>Result = r, Timestamp = now\<rparr>
            else case fmlookup c x of
                   None \<Rightarrow> None
                 | Some e \<Rightarrow> if now - Timestamp e > 5 * Minute then None else Some e)) \<and>
         fmdom (cacheResult now k r c) = finsert k (fmdom c |-| expired_keys now c) \<and>
         (len c = 1001 \<and> fcard (expired_keys now c) = 5 \<longrightarrow>
            len (cacheResult now k r c) =
              (if k |\<in>| fmdom c |-| expired_keys now c then 996 else 997))"
proof (intro conjI allI impI)
  fix x
  show "fmlookup (cacheResult now k r c) x =
           (if x = k then Some \<lparr>Result = r, Timestamp = now\<rparr>
            else case fmlookup c x of
                   None \<Rightarrow> None
                 | Some e \<Rightarrow> if now - Timestamp e > 5 * Minute then None else Some e)"
    using assms by (simp add: cacheResult_def fmlookup_sweep expired_iff split: option.splits)
next
  show dom: "fmdom (cacheResult now k r c) = finsert k (fmdom c |-| expired_keys now c)"
    using assms by (simp add: cacheResult_def fmdom_sweep)
  assume h: "len c = 1001 \<and> fcard (expired_keys now c) = 5"
  have "fcard (fmdom c |-| expired_keys now c) = 996"
    using h by (simp add: fcard_funion_fsubset expired_keys_subset len_def)
  then show "len (cacheResult now k r c) =
              (if k |\<in>| fmdom c |-| expired_keys now c then 996 else 997)"
    unfolding len_def dom by (simp add: fcard_finsert_if)
qed

text \<open>
  A cache of \<open>N\<close> entries under the keys \<open>q\<close>, \<open>qq\<close>, \<open>qqq\<close> and so on, the first five
  stored at time 0 and the others 200 seconds later.
\<close>

definition key_of :: "nat \<Rightarrow> string" where
  "key_of n = replicate (Suc n) CHR ''q''"

definition entry_of :: "nat \<Rightarrow> CacheEntry" where
  "entry_of n = \<lparr>Result = SearchResult_zero,
                 Timestamp = (if n < 5 then 0 else 200 * Second)\<rparr>"

definition cache_upto :: "nat \<Rightarrow> SearchCache" where
  "cache_upto N = fmap_of_list (map (\<lambda>n. (key_of n, entry_of n)) [0..<N])"

lemma key_of_inj: "key_of m = key_of n \<longleftrightarrow> m = n"
  by (auto simp: key_of_def dest: arg_cong [where f = length])

lemma key_of_neq_new: "key_of m \<noteq> ''new''"
  by (simp add: key_of_def)

lemma in_fmdom_cache_upto: "x |\<in>| fmdom (cache_upto N) \<longleftrightarrow> (\<exists>m<N. x = key_of m)"
  by (auto simp: cache_upto_def fmdom_fmap_of_list fset_of_list.rep_eq simp del: upt_Suc)

lemma fmdom_cache_upto: "fset (fmdom (cache_upto N)) = key_of ` {0..<N}"
  using in_fmdom_cache_upto [of _ N] by auto

lemma len_cache_upto: "len (cache_upto N) = N"
  by (simp add: len_def fcard.rep_eq fmdom_cache_upto card_image inj_on_def key_of_inj)

lemma map_of_upto:
  "map_of (map (\<lambda>n. (key_of n, entry_of n)) [0..<N]) (key_of m) =
     (if m < N then Some (entry_of m) else None)"
  by (induction N) (auto simp: map_add_def key_of_inj less_Suc_eq split: option.splits)

lemma fmlookup_cache_upto:
  "fmlookup (cache_upto N) (key_of m) = (if m < N then Some (entry_of m) else None)"
  by (simp add: cache_upto_def fmlookup_of_list map_of_upto del: upt_Suc)

lemma expired_entry_of: "expired (400 * Second) (entry_of m) \<longleftrightarrow> m < 5"
  by (simp add: expired_iff entry_of_def Minute_def Second_def Millisecond_def)

lemma in_expired_keys_cache_upto:
  assumes "5 \<le> N"
  shows "x |\<in>| expired_keys (400 * Second) (cache_upto N) \<longleftrightarrow> (\<exists>m<5. x = key_of m)"
proof (cases "\<exists>m<N. x = key_of m")
  case True
  then obtain m where m: "m < N" "x = key_of m" by blast
  have "x |\<in>| fmdom (cache_upto N)"
    using m by (auto simp: in_fmdom_cache_upto)
  then have "x |\<in>| expired_keys (400 * Second) (cache_upto N) \<longleftrightarrow> m < 5"
    using m by (simp add: expired_keys_def fmlookup_cache_upto expired_entry_of)
  moreover have "(\<exists>m'<5. x = key_of m') \<longleftrightarrow> m < 5"
    using m by (auto simp: key_of_inj)
  ultimately show ?thesis by simp
next
  case False
  then have "x |\<notin>| fmdom (cache_upto N)"
    by (simp add: in_fmdom_cache_upto)
  moreover have "\<not> (\<exists>m<5. x = key_of m)"
  proof
    assume "\<exists>m<5. x = key_of m"
    then obtain m where "m < 5" and x: "x = key_of m" by blast
    with assms have "m < N" by simp
    with False x show False by blast
  qed
  ultimately show ?thesis
    by (simp add: expired_keys_def)
qed

lemma fcard_expired_keys_cache_upto:
  assumes "5 \<le> N"
  shows "fcard (expired_keys (400 * Second) (cache_upto N)) = 5"
proof -
  have "fset (expired_keys (400 * Second) (cache_upto N)) = key_of ` {0..<5}"
    using in_expired_keys_cache_upto [OF assms] by auto
  then show ?thesis
    by (simp add: fcard.rep_eq card_image inj_on_def key_of_inj)
qed

theorem store_past_threshold_sweeps_witness:
  "1000 < len (cache_upto 1001) \<and>
   len (cache_upto 1001) = 1001 \<and>
   fcard (expired_keys (400 * Second) (cache_upto 1001)) = 5 \<and>
   len (cacheResult (400 * Second) ''new'' SearchResult_zero (cache_upto 1001)) = 997 \<and>
   fmlookup (cacheResult (400 * Second) ''new'' SearchResult_zero (cache_upto 1001)) ''new''
     = Some \<lparr>Result = SearchResult_zero, Timestamp = 400 * Second\<rparr> \<and>
   fmlookup (cacheResult (400 * Second) ''new'' SearchResult_zero (cache_upto 1001)) (key_of 4)
     = None \<and>
   fmlookup (cacheResult (400 * Second) ''new'' SearchResult_zero (cache_upto 1001)) (key_of 5)
     = Some (entry_of 5)"
proof -
  have big: "1000 < len (cache_upto 1001)"
    by (simp add: len_cache_upto)
  have five: "fcard (expired_keys (400 * Second) (cache_upto 1001)) = 5"
    by (simp add: fcard_expired_keys_cache_upto)
  have new: "''new'' |\<notin>| fmdom (cache_upto 1001)"
    by (simp add: in_fmdom_cache_upto) (metis key_of_neq_new)
  have k4: "''new'' \<noteq> key_of 4" and k5: "''new'' \<noteq> key_of 5"
    using key_of_neq_new [of 4] key_of_neq_new [of 5] by auto
  show ?thesis
    using store_past_threshold_sweeps [OF big, of "400 * Second" "''new''" SearchResult_zero]
      big five new k4 k5
    by (simp add: len_cache_upto fmlookup_cache_upto entry_of_def
        Minute_def Second_def Millisecond_def)
qed

section \<open>Properties of the retry loop\<close>

declare retry_loop.simps [simp del]

text \<open>The one sleep before attempt \<open>k\<close>, and the events of \<open>n\<close> attempts from attempt \<open>a\<close> on.\<close>

definition delay_before :: "Config \<Rightarrow> nat \<Rightarrow> int \<Rightarrow> Duration" where
  "delay_before config raw k =
     (if k = 0 then wrap64 (FetchDelay config + wrap64 (Intn 300 raw * Millisecond))
      else wrap64 (k * FetchDelay config))"

definition iterations :: "Config \<Rightarrow> nat \<Rightarrow> string \<Rightarrow> int \<Rightarrow> nat \<Rightarrow> event list" where
  "iterations config raw articleURL a n =
     concat (map (\<lambda>k. [Sleep (delay_before config raw (a + int k)), Scrape articleURL]) [0..<n])"

lemma iterations_0: "iterations config raw url a 0 = []"
  by (simp add: iterations_def)

lemma iterations_Suc:
  "iterations config raw url a (Suc n) =
     Sleep (delay_before config raw a) # Scrape url # iterations config raw url (a + 1) n"
  by (simp add: iterations_def map_upt_Suc add.assoc del: upt_Suc)

lemma attempts_append: "attempts (xs @ ys) = attempts xs + attempts ys"
  by (induction xs rule: attempts.induct) auto

lemma attempts_iterations: "attempts (iterations config raw url a n) = n"
  by (induction n arbitrary: a) (simp_all add: iterations_0 iterations_Suc)

lemma delays_iterations:
  "delays (iterations config raw url a n) = map (\<lambda>k. [delay_before config raw (a + int k)]) [0..<n]"
proof (induction n arbitrary: a)
  case 0
  then show ?case by (simp add: iterations_0 delays_def)
next
  case (Suc n)
  have shift: "\<And>k. a + int (Suc k) = a + 1 + int k"
    by simp
  have "delays (iterations config raw url a (Suc n)) =
        [delay_before config raw a] # delays (iterations config raw url (a + 1) n)"
    by (simp add: iterations_Suc delays_def)
  also have "\<dots> = map (\<lambda>k. [delay_before config raw (a + int k)]) [0..<Suc n]"
    by (simp add: Suc.IH map_upt_Suc add.assoc del: upt_Suc)
  finally show ?case .
qed

lemma retry_loop_stop:
  "\<not> a \<le> MaxRetries config \<Longrightarrow>
   retry_loop config raw scrape url a e evs =
     (\<lparr>Article = None, Error = e, URL = url, Retries = MaxRetries config\<rparr>, evs)"
  by (subst retry_loop.simps) simp

lemma retry_loop_step:
  "0 \<le> a \<Longrightarrow> a \<le> MaxRetries config \<Longrightarrow>
   retry_loop config raw scrape url a e evs =
     (case scrape a of
        Inr article \<Rightarrow>
          (\<lparr>Article = Some article, Error = None, URL = url, Retries = a\<rparr>,
           evs @ [Sleep (delay_before config raw a), Scrape url])
      | Inl err \<Rightarrow>
          retry_loop config raw scrape url (a + 1) (Some err)
            (evs @ [Sleep (delay_before config raw a), Scrape url]))"
  by (subst retry_loop.simps) (simp add: delay_before_def Let_def split: sum.splits)

lemma retry_loop_events:
  "0 \<le> a \<Longrightarrow>
   \<exists>n. int n \<le> max 0 (MaxRetries config + 1 - a) \<and>
       snd (retry_loop config raw scrape url a e evs) = evs @ iterations config raw url a n"
proof (induction "nat (MaxRetries config + 1 - a)" arbitrary: a e evs)
  case 0
  then have "\<not> a \<le> MaxRetries config" by simp
  then have "snd (retry_loop config raw scrape url a e evs) = evs @ iterations config raw url a 0"
    by (simp add: retry_loop_stop iterations_0)
  then show ?case by (intro exI [of _ 0]) simp
next
  case (Suc m)
  then have le: "a \<le> MaxRetries config" by simp
  let ?evs = "evs @ [Sleep (delay_before config raw a), Scrape url]"
  show ?case
  proof (cases "scrape a")
    case (Inr article)
    then have "snd (retry_loop config raw scrape url a e evs) =
               evs @ iterations config raw url a (Suc 0)"
      using Suc.prems le by (simp add: retry_loop_step iterations_Suc iterations_0)
    then show ?thesis using le by (intro exI [of _ "Suc 0"]) simp
  next
    case (Inl err)
    have loop: "retry_loop config raw scrape url a e evs =
                retry_loop config raw scrape url (a + 1) (Some err) ?evs"
      using Suc.prems le Inl by (simp add: retry_loop_step)
    have "m = nat (MaxRetries config + 1 - (a + 1))"
      using Suc.hyps(2) by simp
    moreover have "0 \<le> a + 1" using Suc.prems by simp
    ultimately obtain n where n: "int n \<le> max 0 (MaxRetries config + 1 - (a + 1))"
      and s: "snd (retry_loop config raw scrape url (a + 1) (Some err) ?evs) =
              ?evs @ iterations config raw url (a + 1) n"
      using Suc.hyps(1) by blast
    have "snd (retry_loop config raw scrape url a e evs) =
          evs @ iterations config raw url a (Suc n)"
      by (simp add: loop s iterations_Suc)
    moreover have "int (Suc n) \<le> max 0 (MaxRetries config + 1 - a)"
      using n le by simp
    ultimately show ?thesis by blast
  qed
qed

lemma retry_loop_all_fail:
  "0 \<le> a \<Longrightarrow> \<forall>k. a \<le> k \<and> k \<le> MaxRetries config \<longrightarrow> isl (scrape k) \<Longrightarrow>
   retry_loop config raw scrape url a e evs =
     (\<lparr>Article = None,
       Error = (if a \<le> MaxRetries config then Some (projl (scrape (MaxRetries config))) else e),
       URL = url, Retries = MaxRetries config\<rparr>,
      evs @ iterations config raw url a (nat (MaxRetries config + 1 - a)))"
proof (induction "nat (MaxRetries config + 1 - a)" arbitrary: a e evs)
  case 0
  then have "\<not> a \<le> MaxRetries config" by simp
  then show ?case
    using 0 by (simp add: retry_loop_stop iterations_0)
next
  case (Suc m)
  then have le: "a \<le> MaxRetries config" by simp
  let ?evs = "evs @ [Sleep (delay_before config raw a), Scrape url]"
  from Suc.prems le obtain err where err: "scrape a = Inl err"
    by (cases "scrape a") auto
  have loop: "retry_loop config raw scrape url a e evs =
              retry_loop config raw scrape url (a + 1) (Some err) ?evs"
    using Suc.prems le err by (simp add: retry_loop_step)
  have m: "m = nat (MaxRetries config + 1 - (a + 1))"
    using Suc.hyps(2) by simp
  have IH: "retry_loop config raw scrape url (a + 1) (Some err) ?evs =
     (\<lparr>Article = None,
       Error = (if a + 1 \<le> MaxRetries config then Some (projl (scrape (MaxRetries config)))
                else Some err),
       URL = url, Retries = MaxRetries config\<rparr>,
      ?evs @ iterations config raw url (a + 1) (nat (MaxRetries config + 1 - (a + 1))))"
    using Suc.hyps(1) [OF m] Suc.prems by simp
  have last: "\<not> a + 1 \<le> MaxRetries config \<Longrightarrow> a = MaxRetries config"
    using le by simp
  have n: "nat (MaxRetries config + 1 - a) = Suc (nat (MaxRetries config + 1 - (a + 1)))"
    using le by simp
  show ?case
  proof (cases "a + 1 \<le> MaxRetries config")
    case True
    then show ?thesis
      unfolding loop IH n iterations_Suc using le by simp
  next
    case False
    then have "scrape (MaxRetries config) = Inl err"
      using last err by simp
    then show ?thesis
      unfolding loop IH n iterations_Suc using le False by simp
  qed
qed


text \<open>With a negative retry limit the loop body never runs: no fetch, no error, no article.\<close>

lemma worker_negative_limit:
  "MaxRetries config < 0 \<Longrightarrow>
   worker config raw scrape url =
     (\<lparr>Article = None, Error = None, URL = url, Retries = MaxRetries config\<rparr>, [])"
  by (simp add: worker_def retry_loop_stop)

lemma wrap64_id: "- (2 ^ 63) \<le> x \<Longrightarrow> x < 2 ^ 63 \<Longrightarrow> wrap64 x = x"
  by (simp add: wrap64_def)

lemma worker_events:
  "\<exists>n. int n \<le> max 0 (MaxRetries config + 1) \<and>
       snd (worker config raw scrape url) = iterations config raw url 0 n"
  using retry_loop_events [of 0 config raw scrape url None "[]"]
  by (simp add: worker_def)

text \<open>
  C2. With a retry limit that is not negative, a target is fetched at most
  \<open>MaxRetries + 1\<close> times, and when every attempt fails the one result of the worker
  carries no article, the error of the last attempt, and \<open>MaxRetries\<close> as its count
  of retries.
\<close>

theorem retry_budget:
  assumes "0 \<le> MaxRetries config"
  shows "int (attempts (snd (worker config raw scrape url))) \<le> MaxRetries config + 1 \<and>
         ((\<forall>k. 0 \<le> k \<and> k \<le> MaxRetries config \<longrightarrow> isl (scrape k)) \<longrightarrow>
            fst (worker config raw scrape url) =
              \<lparr>Article = None, Error = Some (projl (scrape (MaxRetries config))),
               URL = url, Retries = MaxRetries config\<rparr>)"
proof
  obtain n where n: "int n \<le> max 0 (MaxRetries config + 1)"
    and evs: "snd (worker config raw scrape url) = iterations config raw url 0 n"
    using worker_events by blast
  show "int (attempts (snd (worker config raw scrape url))) \<le> MaxRetries config + 1"
    using n assms by (simp add: evs attempts_iterations)
next
  show "(\<forall>k. 0 \<le> k \<and> k \<le> MaxRetries config \<longrightarrow> isl (scrape k)) \<longrightarrow>
          fst (worker config raw scrape url) =
            \<lparr>Article = None, Error = Some (projl (scrape (MaxRetries config))),
             URL = url, Retries = MaxRetries config\<rparr>"
    using assms retry_loop_all_fail [of 0 config scrape raw url None "[]"]
    by (simp add: worker_def)
qed

text \<open>A target whose every fetch fails, the last one with another error.\<close>

definition always_failing :: "int \<Rightarrow> string + Article" where
  "always_failing k = (if k = 3 then Inl ''connection reset'' else Inl ''timeout'')"

theorem retry_budget_witness:
  "0 \<le> MaxRetries main_config \<and>
   int (attempts (snd (worker main_config 7 always_failing ''https://example.com/a'')))
     \<le> MaxRetries main_config + 1 \<and>
   attempts (snd (worker main_config 7 always_failing ''https://example.com/a'')) = 4 \<and>
   fst (worker main_config 7 always_failing ''https://example.com/a'') =
     \<lparr>Article = None, Error = Some ''connection reset'',
      URL = ''https://example.com/a'', Retries = 3\<rparr>"
proof -
  have h: "0 \<le> MaxRetries main_config"
    by (simp add: main_config_def)
  have fails: "\<forall>k. 0 \<le> k \<and> k \<le> MaxRetries main_config \<longrightarrow> isl (always_failing k)"
    by (simp add: always_failing_def)
  have n: "attempts (snd (worker main_config 7 always_failing ''https://example.com/a'')) = 4"
    by code_simp
  show ?thesis
    using retry_budget [OF h, of 7 always_failing "''https://example.com/a''"] fails n
    by (simp add: main_config_def always_failing_def)
qed

text \<open>
  C3 as the specification states it: before every call to \<^verbatim>\<open>scrapeFullArticle\<close> the
  worker sleeps the fixed delay plus a jitter of less than 300 milliseconds.
\<close>

definition courtesy_delay_before_every_attempt :: "Config \<Rightarrow> event list \<Rightarrow> bool" where
  "courtesy_delay_before_every_attempt config evs \<longleftrightarrow>
     (\<forall>ds \<in> set (delays evs).
        \<exists>j \<in> {0..<300}. wrap64 (FetchDelay config + wrap64 (j * Millisecond)) \<in> set ds)"

lemma delays_always_failing:
  "delays (snd (worker main_config 7 always_failing ''https://example.com/a'')) =
     [[207 * Millisecond], [200 * Millisecond], [400 * Millisecond], [600 * Millisecond]]"
  by code_simp

theorem courtesy_delay_counterexample:
  "\<not> courtesy_delay_before_every_attempt main_config
        (snd (worker main_config 7 always_failing ''https://example.com/a''))"
proof -
  have "wrap64 (FetchDelay main_config + wrap64 (j * Millisecond)) \<noteq> 600 * Millisecond"
    if "j \<in> {0..<300}" for j :: int
    using that by (simp add: wrap64_id main_config_def Millisecond_def)
  then show ?thesis
    by (auto simp: courtesy_delay_before_every_attempt_def delays_always_failing)
qed

text \<open>
  C3, amended. The fixed delay plus a jitter of less than 300 milliseconds is slept
  before attempt 0 only; before retry \<open>k\<close>, for \<open>k \<ge> 1\<close>, the worker sleeps \<open>k\<close> times
  the fixed delay and nothing else. Both are computed in 64-bit arithmetic.
\<close>

theorem delay_policy:
  "(\<forall>k < length (delays (snd (worker config raw scrape url))).
      delays (snd (worker config raw scrape url)) ! k =
        [if k = 0 then wrap64 (FetchDelay config + wrap64 (Intn 300 raw * Millisecond))
         else wrap64 (int k * FetchDelay config)]) \<and>
   0 \<le> Intn 300 raw \<and> Intn 300 raw < 300"
proof -
  obtain n where evs: "snd (worker config raw scrape url) = iterations config raw url 0 n"
    using worker_events by blast
  show ?thesis
    by (simp add: evs delays_iterations delay_before_def Intn_def)
qed

theorem delay_policy_witness:
  "length (delays (snd (worker main_config 7 always_failing ''https://example.com/a''))) = 4 \<and>
   delays (snd (worker main_config 7 always_failing ''https://example.com/a'')) ! 0
     = [207 * Millisecond] \<and>
   delays (snd (worker main_config 7 always_failing ''https://example.com/a'')) ! 3
     = [3 * (200 * Millisecond)]"
proof -
  have n: "length (delays (snd (worker main_config 7 always_failing ''https://example.com/a''))) = 4"
    by (simp add: delays_always_failing)
  show ?thesis
    using delay_policy [of main_config 7 always_failing "''https://example.com/a''"] n
    by (simp add: main_config_def Intn_def wrap64_id Millisecond_def)
qed

section \<open>Properties of the fetch worker\<close>

text \<open>The titles the source refuses, as a list.\<close>

definition placeholder_titles :: "string list" where
  "placeholder_titles = [''How can we help?'', ''Knowledge Base'']"

lemma Title_on_body [simp]: "Title (on_body h a) = Title a"
  by (simp add: on_body_def split: option.splits)

lemma Title_on_time [simp]: "Title (on_time d a) = Title a"
  by (simp add: on_time_def)

lemma Title_fold_on_body [simp]: "Title (fold on_body hs a) = Title a"
  by (induction hs arbitrary: a) simp_all

lemma Title_fold_on_time [simp]: "Title (fold on_time ds a) = Title a"
  by (induction ds arbitrary: a) simp_all

lemma TrimSpace_placeholder:
  "TrimSpace ''How can we help?'' = ''How can we help?''"
  "TrimSpace ''Knowledge Base'' = ''Knowledge Base''"
  by code_simp+

lemma on_header_h3_placeholder:
  assumes "TrimSpace t \<in> set placeholder_titles"
  shows "on_header_h3 t a = a"
proof -
  have "TrimSpace t = ''How can we help?'' \<or> TrimSpace t = ''Knowledge Base''"
    using assms by (simp add: placeholder_titles_def)
  then show ?thesis
    by (auto simp: on_header_h3_def TrimSpace_placeholder title_line_def)
qed

lemma on_title_placeholder:
  assumes "TrimSpace (snd e) \<in> set placeholder_titles"
  shows "on_title e a = a"
  using assms by (auto simp: on_title_def placeholder_titles_def)

lemma fold_on_header_h3_placeholder:
  "\<forall>t \<in> set ts. TrimSpace t \<in> set placeholder_titles \<Longrightarrow> fold on_header_h3 ts a = a"
  by (induction ts arbitrary: a) (simp_all add: on_header_h3_placeholder)

lemma fold_on_title_placeholder:
  "\<forall>e \<in> set es. TrimSpace (snd e) \<in> set placeholder_titles \<Longrightarrow> fold on_title es a = a"
  by (induction es arbitrary: a) (simp_all add: on_title_placeholder)

text \<open>
  C4. An article that \<^verbatim>\<open>scrapeFullArticle\<close> returns has a title that is neither empty
  nor one of the placeholders, and a body that is not empty. A visit without an error
  whose title candidates, trimmed, are all placeholders ends in the error
  \<^verbatim>\<open>no meaningful title found on page\<close>, whatever body was extracted.
\<close>

theorem validation_gate:
  "(scrapeFullArticle now1 now2 url v = Inr article \<longrightarrow>
      Title article \<noteq> [] \<and> Title article \<notin> set placeholder_titles \<and> Body article \<noteq> []) \<and>
   (visit_err v = None \<and> scrape_err v = None \<and>
    (\<forall>t \<in> set (header_h3 (page v)). TrimSpace t \<in> set placeholder_titles) \<and>
    (\<forall>e \<in> set (title_elems (page v)). TrimSpace (snd e) \<in> set placeholder_titles) \<longrightarrow>
      scrapeFullArticle now1 now2 url v = Inl ''no meaningful title found on page'')"
proof (intro conjI impI)
  assume ok: "scrapeFullArticle now1 now2 url v = Inr article"
  let ?a = "collect url (page v)"
  from ok have gate: "Title ?a \<noteq> []" "Title ?a \<noteq> ''How can we help?''"
    "Title ?a \<noteq> ''Knowledge Base''" "Body ?a \<noteq> []"
    by (auto simp: scrapeFullArticle_def Let_def split: option.splits if_splits)
  from ok have "Title article = Title ?a" "Body article = Body ?a"
    by (auto simp: scrapeFullArticle_def Let_def split: option.splits if_splits)
  with gate show "Title article \<noteq> []" "Title article \<notin> set placeholder_titles"
    "Body article \<noteq> []"
    by (simp_all add: placeholder_titles_def)
next
  assume h: "visit_err v = None \<and> scrape_err v = None \<and>
    (\<forall>t \<in> set (header_h3 (page v)). TrimSpace t \<in> set placeholder_titles) \<and>
    (\<forall>e \<in> set (title_elems (page v)). TrimSpace (snd e) \<in> set placeholder_titles)"
  then have "Title (collect url (page v)) = []"
    by (simp add: collect_def Let_def fold_on_header_h3_placeholder fold_on_title_placeholder)
  with h show "scrapeFullArticle now1 now2 url v = Inl ''no meaningful title found on page''"
    by (simp add: scrapeFullArticle_def)
qed

text \<open>A page with a title and a body, and a page whose one title candidate is a placeholder.\<close>

definition article_page :: Page where
  "article_page =
     \<lparr>header_h3 = [''  Getting started\<newline>  Published 3 days ago  ''],
      title_elems = [([], ''Knowledge Base'')],
      body_elems = [Some ''<div></div><p>Press  the button.</p>  ''],
      fallback_body_elems = [],
      time_elems = [''2024-05-06T07:08:09Z'']\<rparr>"

definition placeholder_page :: Page where
  "placeholder_page =
     \<lparr>header_h3 = [''How can we help?''],
      title_elems = [],
      body_elems = [Some ''<div></div><p>Press  the button.</p>  ''],
      fallback_body_elems = [],
      time_elems = []\<rparr>"

definition article_url :: string where
  "article_url = ''https://support.example.com/hc/en-us/articles/360001-getting-started''"

lemma scrape_article_page:
  "scrapeFullArticle ''now1'' ''now2'' article_url
     \<lparr>visit_err = None, scrape_err = None, page = article_page\<rparr> =
   Inr \<lparr>ID = ''360001'', Title = ''Getting started'', Body = ''<p>Press the button.</p>'',
        URL = article_url, CreatedAt = ''2024-05-06T07:08:09Z'',
        UpdatedAt = ''2024-05-06T07:08:09Z''\<rparr>"
  by code_simp

lemma Body_placeholder_page:
  "Body (collect article_url placeholder_page) = ''<p>Press the button.</p>''"
  by code_simp

theorem validation_gate_witness:
  "scrapeFullArticle ''now1'' ''now2'' article_url
     \<lparr>visit_err = None, scrape_err = None, page = article_page\<rparr> =
   Inr \<lparr>ID = ''360001'', Title = ''Getting started'', Body = ''<p>Press the button.</p>'',
        URL = article_url, CreatedAt = ''2024-05-06T07:08:09Z'',
        UpdatedAt = ''2024-05-06T07:08:09Z''\<rparr> \<and>
   ''Getting started'' \<notin> set placeholder_titles \<and>
   header_h3 placeholder_page = [''How can we help?''] \<and>
   title_elems placeholder_page = [] \<and>
   TrimSpace ''How can we help?'' \<in> set placeholder_titles \<and>
   Body (collect article_url placeholder_page) = ''<p>Press the button.</p>'' \<and>
   scrapeFullArticle ''now1'' ''now2'' article_url
     \<lparr>visit_err = None, scrape_err = None, page = placeholder_page\<rparr> =
   Inl ''no meaningful title found on page''"
proof -
  have trim: "TrimSpace ''How can we help?'' \<in> set placeholder_titles"
    by (simp add: TrimSpace_placeholder placeholder_titles_def)
  show ?thesis
    using validation_gate [of "''now1''" "''now2''" article_url
        "\<lparr>visit_err = None, scrape_err = None, page = article_page\<rparr>"
        "\<lparr>ID = ''360001'', Title = ''Getting started'', Body = ''<p>Press the button.</p>'',
          URL = article_url, CreatedAt = ''2024-05-06T07:08:09Z'',
          UpdatedAt = ''2024-05-06T07:08:09Z''\<rparr>"]
      validation_gate [of "''now1''" "''now2''" article_url
        "\<lparr>visit_err = None, scrape_err = None, page = placeholder_page\<rparr>"]
      scrape_article_page Body_placeholder_page trim
    by (simp add: placeholder_page_def)
qed

section \<open>Failures are retried\<close>

lemma retry_loop_first_success:
  "0 \<le> a \<Longrightarrow> a \<le> j \<Longrightarrow> j \<le> MaxRetries config \<Longrightarrow>
   \<forall>k. a \<le> k \<and> k < j \<longrightarrow> isl (scrape k) \<Longrightarrow> scrape j = Inr article \<Longrightarrow>
   retry_loop config raw scrape url a e evs =
     (\<lparr>Article = Some article, Error = None, URL = url, Retries = j\<rparr>,
      evs @ iterations config raw url a (nat (j + 1 - a)))"
proof (induction "nat (j - a)" arbitrary: a e evs)
  case 0
  then have "a = j" by simp
  then show ?case
    using 0 by (simp add: retry_loop_step iterations_Suc iterations_0)
next
  case (Suc m)
  then have lt: "a < j" by simp
  then have le: "a \<le> MaxRetries config" using Suc.prems by simp
  let ?evs = "evs @ [Sleep (delay_before config raw a), Scrape url]"
  from Suc.prems lt obtain err where err: "scrape a = Inl err"
    by (cases "scrape a") auto
  have loop: "retry_loop config raw scrape url a e evs =
              retry_loop config raw scrape url (a + 1) (Some err) ?evs"
    using Suc.prems le err by (simp add: retry_loop_step)
  have m: "m = nat (j - (a + 1))"
    using Suc.hyps(2) by simp
  have IH: "retry_loop config raw scrape url (a + 1) (Some err) ?evs =
     (\<lparr>Article = Some article, Error = None, URL = url, Retries = j\<rparr>,
      ?evs @ iterations config raw url (a + 1) (nat (j + 1 - (a + 1))))"
    using Suc.hyps(1) [OF m] Suc.prems lt by simp
  have n: "nat (j + 1 - a) = Suc (nat (j + 1 - (a + 1)))"
    using lt by simp
  show ?case
    unfolding loop IH n iterations_Suc by simp
qed

lemma iterations_explicit:
  "iterations config raw url 0 n =
     concat (map (\<lambda>k. [Sleep (if k = 0
                              then wrap64 (FetchDelay config
                                     + wrap64 (Intn 300 raw * Millisecond))
                              else wrap64 (int k * FetchDelay config)),
                       Scrape url]) [0..<n])"
  by (simp add: iterations_def delay_before_def)

text \<open>
  C9, amended. No failure is terminal: the loop retries on every error that
  \<^verbatim>\<open>scrapeFullArticle\<close> returns, and the error \<^verbatim>\<open>c.Visit\<close> returns for a malformed
  URL is one of them. With a retry limit that is not negative, a target whose
  attempts all fail, for whatever reasons, is fetched \<open>MaxRetries + 1\<close> times, with
  the delay of the retry policy slept before each attempt (the courtesy delay before
  attempt 0, \<open>k\<close> times the fixed delay before retry \<open>k\<close>), and then one result is
  sent that carries the last error and \<open>MaxRetries\<close> as its count of retries. A
  target whose attempts fail until attempt \<open>j\<close> succeeds is fetched \<open>j + 1\<close> times
  with the same delays, and its result carries the article and \<open>j\<close> retries.
\<close>

theorem every_failure_is_retried:
  assumes "0 \<le> MaxRetries config"
  shows
    "(visit_err v = Some e \<longrightarrow>
        scrapeFullArticle now1 now2 url v = Inl (''error visiting page: '' @ e)) \<and>
     ((\<forall>k. 0 \<le> k \<and> k \<le> MaxRetries config \<longrightarrow>
            isl (scrapeFullArticle (now k) (now k) url (visits k))) \<longrightarrow>
        worker config raw (\<lambda>k. scrapeFullArticle (now k) (now k) url (visits k)) url =
          (\<lparr>Article = None,
            Error = Some (projl (scrapeFullArticle (now (MaxRetries config))
                                   (now (MaxRetries config)) url
                                   (visits (MaxRetries config)))),
            URL = url, Retries = MaxRetries config\<rparr>,
           concat (map (\<lambda>k. [Sleep (if k = 0
                                    then wrap64 (FetchDelay config
                                           + wrap64 (Intn 300 raw * Millisecond))
                                    else wrap64 (int k * FetchDelay config)),
                             Scrape url]) [0..<nat (MaxRetries config + 1)])) \<and>
        int (attempts (snd (worker config raw
               (\<lambda>k. scrapeFullArticle (now k) (now k) url (visits k)) url))) =
          MaxRetries config + 1) \<and>
     (0 \<le> j \<and> j \<le> MaxRetries config \<and>
      (\<forall>k. 0 \<le> k \<and> k < j \<longrightarrow> isl (scrapeFullArticle (now k) (now k) url (visits k))) \<and>
      scrapeFullArticle (now j) (now j) url (visits j) = Inr article \<longrightarrow>
        worker config raw (\<lambda>k. scrapeFullArticle (now k) (now k) url (visits k)) url =
          (\<lparr>Article = Some article, Error = None, URL = url, Retries = j\<rparr>,
           concat (map (\<lambda>k. [Sleep (if k = 0
                                    then wrap64 (FetchDelay config
                                           + wrap64 (Intn 300 raw * Millisecond))
                                    else wrap64 (int k * FetchDelay config)),
                             Scrape url]) [0..<nat (j + 1)])))"
proof (intro conjI impI)
  assume "visit_err v = Some e"
  then show "scrapeFullArticle now1 now2 url v = Inl (''error visiting page: '' @ e)"
    by (simp add: scrapeFullArticle_def)
next
  let ?scrape = "\<lambda>k. scrapeFullArticle (now k) (now k) url (visits k)"
  assume "\<forall>k. 0 \<le> k \<and> k \<le> MaxRetries config \<longrightarrow> isl (?scrape k)"
  then have w: "worker config raw ?scrape url =
     (\<lparr>Article = None, Error = Some (projl (?scrape (MaxRetries config))),
       URL = url, Retries = MaxRetries config\<rparr>,
      iterations config raw url 0 (nat (MaxRetries config + 1)))"
    using retry_loop_all_fail [of 0 config ?scrape raw url None "[]"] assms
    by (simp add: worker_def)
  show "int (attempts (snd (worker config raw ?scrape url))) = MaxRetries config + 1"
    using assms by (simp add: w attempts_iterations)
  from w show "worker config raw ?scrape url =
          (\<lparr>Article = None, Error = Some (projl (?scrape (MaxRetries config))),
            URL = url, Retries = MaxRetries config\<rparr>,
           concat (map (\<lambda>k. [Sleep (if k = 0
                                    then wrap64 (FetchDelay config
                                           + wrap64 (Intn 300 raw * Millisecond))
                                    else wrap64 (int k * FetchDelay config)),
                             Scrape url]) [0..<nat (MaxRetries config + 1)]))"
    by (simp only: iterations_explicit)
next
  let ?scrape = "\<lambda>k. scrapeFullArticle (now k) (now k) url (visits k)"
  assume h: "0 \<le> j \<and> j \<le> MaxRetries config \<and>
      (\<forall>k. 0 \<le> k \<and> k < j \<longrightarrow> isl (?scrape k)) \<and> ?scrape j = Inr article"
  then have "worker config raw ?scrape url =
     (\<lparr>Article = Some article, Error = None, URL = url, Retries = j\<rparr>,
      iterations config raw url 0 (nat (j + 1)))"
    using retry_loop_first_success [of 0 j config ?scrape article raw url None "[]"]
    by (simp add: worker_def)
  then show "worker config raw ?scrape url =
          (\<lparr>Article = Some article, Error = None, URL = url, Retries = j\<rparr>,
           concat (map (\<lambda>k. [Sleep (if k = 0
                                    then wrap64 (FetchDelay config
                                           + wrap64 (Intn 300 raw * Millisecond))
                                    else wrap64 (int k * FetchDelay config)),
                             Scrape url]) [0..<nat (j + 1)]))"
    by (simp only: iterations_explicit)
qed

text \<open>The visit of a malformed URL: \<^verbatim>\<open>c.Visit\<close> returns the parser's error and no request is made.\<close>

definition malformed :: Visit where
  "malformed =
     \<lparr>visit_err = Some ''invalid URL escape'', scrape_err = None,
      page = \<lparr>header_h3 = [], title_elems = [], body_elems = [],
              fallback_body_elems = [], time_elems = []\<rparr>\<rparr>"

lemma worker_malformed:
  "worker main_config 7 (\<lambda>k. scrapeFullArticle ''now'' ''now'' ''%zz'' malformed) ''%zz'' =
     (\<lparr>Article = None, Error = Some ''error visiting page: invalid URL escape'',
       URL = ''%zz'', Retries = 3\<rparr>,
      [Sleep (207 * Millisecond), Scrape ''%zz'', Sleep (200 * Millisecond), Scrape ''%zz'',
       Sleep (400 * Millisecond), Scrape ''%zz'', Sleep (600 * Millisecond), Scrape ''%zz''])"
  by code_simp

text \<open>
  C9 as the specification states it fails for the malformed URL \<^verbatim>\<open>%zz\<close> under the
  configuration of \<^verbatim>\<open>main\<close>: the worker calls \<^verbatim>\<open>scrapeFullArticle\<close> four times, not
  once, and reports three retries.
\<close>

theorem terminal_failure_counterexample:
  "attempts (snd (worker main_config 7
       (\<lambda>k. scrapeFullArticle ''now'' ''now'' ''%zz'' malformed) ''%zz'')) \<noteq> 1 \<and>
   attempts (snd (worker main_config 7
       (\<lambda>k. scrapeFullArticle ''now'' ''now'' ''%zz'' malformed) ''%zz'')) = 4 \<and>
   Retries (fst (worker main_config 7
       (\<lambda>k. scrapeFullArticle ''now'' ''now'' ''%zz'' malformed) ''%zz'')) = 3"
  by (simp add: worker_malformed)

text \<open>
  A target that answers the first attempt with a failed request, the second with a
  page whose only title is a placeholder, and the third with an article.
\<close>

definition recovering :: "int \<Rightarrow> Visit" where
  "recovering k =
     (if k = 0 then \<lparr>visit_err = None, scrape_err = Some ''Service Unavailable'',
                      page = placeholder_page\<rparr>
      else if k = 1 then \<lparr>visit_err = None, scrape_err = None, page = placeholder_page\<rparr>
      else \<lparr>visit_err = None, scrape_err = None, page = article_page\<rparr>)"

lemma scrape_recovering:
  "scrapeFullArticle ''now'' ''now'' article_url (recovering 0) =
     Inl ''scraping error: Service Unavailable''"
  "scrapeFullArticle ''now'' ''now'' article_url (recovering 1) =
     Inl ''no meaningful title found on page''"
  "scrapeFullArticle ''now'' ''now'' article_url (recovering 2) =
     Inr \<lparr>ID = ''360001'', Title = ''Getting started'', Body = ''<p>Press the button.</p>'',
          URL = article_url, CreatedAt = ''2024-05-06T07:08:09Z'',
          UpdatedAt = ''2024-05-06T07:08:09Z''\<rparr>"
  by code_simp+

theorem every_failure_is_retried_witness:
  "0 \<le> MaxRetries main_config \<and>
   visit_err malformed = Some ''invalid URL escape'' \<and>
   scrapeFullArticle ''now'' ''now'' ''%zz'' malformed =
     Inl ''error visiting page: invalid URL escape'' \<and>
   worker main_config 7 (\<lambda>k. scrapeFullArticle ''now'' ''now'' ''%zz'' malformed) ''%zz'' =
     (\<lparr>Article = None, Error = Some ''error visiting page: invalid URL escape'',
       URL = ''%zz'', Retries = 3\<rparr>,
      [Sleep (207 * Millisecond), Scrape ''%zz'', Sleep (200 * Millisecond), Scrape ''%zz'',
       Sleep (400 * Millisecond), Scrape ''%zz'', Sleep (600 * Millisecond), Scrape ''%zz'']) \<and>
   isl (scrapeFullArticle ''now'' ''now'' article_url (recovering 0)) \<and>
   isl (scrapeFullArticle ''now'' ''now'' article_url (recovering 1)) \<and>
   worker main_config 7 (\<lambda>k. scrapeFullArticle ''now'' ''now'' article_url (recovering k))
       article_url =
     (\<lparr>Article = Some \<lparr>ID = ''360001'', Title = ''Getting started'',
                        Body = ''<p>Press the button.</p>'', URL = article_url,
                        CreatedAt = ''2024-05-06T07:08:09Z'',
                        UpdatedAt = ''2024-05-06T07:08:09Z''\<rparr>,
       Error = None, URL = article_url, Retries = 2\<rparr>,
      [Sleep (207 * Millisecond), Scrape article_url,
       Sleep (200 * Millisecond), Scrape article_url,
       Sleep (400 * Millisecond), Scrape article_url])"
proof -
  have h: "0 \<le> MaxRetries main_config"
    by (simp add: main_config_def)
  have v: "visit_err malformed = Some ''invalid URL escape''"
    by (simp add: malformed_def)
  note bad = every_failure_is_retried [OF h, of malformed "''invalid URL escape''"
      "''now''" "''now''" "''%zz''" "\<lambda>k. ''now''" "\<lambda>k. malformed" 7]
  from bad v have err: "scrapeFullArticle ''now'' ''now'' ''%zz'' malformed =
      Inl ''error visiting page: invalid URL escape''"
    by simp
  then have "\<forall>k. 0 \<le> k \<and> k \<le> MaxRetries main_config \<longrightarrow>
      isl (scrapeFullArticle ((\<lambda>k. ''now'') k) ((\<lambda>k. ''now'') k) ''%zz'' ((\<lambda>k. malformed) k))"
    by simp
  with bad have w1: "worker main_config 7
      (\<lambda>k. scrapeFullArticle ''now'' ''now'' ''%zz'' malformed) ''%zz'' =
     (\<lparr>Article = None, Error = Some ''error visiting page: invalid URL escape'',
       URL = ''%zz'', Retries = 3\<rparr>,
      [Sleep (207 * Millisecond), Scrape ''%zz'', Sleep (200 * Millisecond), Scrape ''%zz'',
       Sleep (400 * Millisecond), Scrape ''%zz'', Sleep (600 * Millisecond), Scrape ''%zz''])"
    by (simp add: err main_config_def Intn_def wrap64_id Millisecond_def upt_rec)
  have early: "\<forall>k. 0 \<le> k \<and> k < 2 \<longrightarrow>
      isl (scrapeFullArticle ((\<lambda>k. ''now'') k) ((\<lambda>k. ''now'') k) article_url (recovering k))"
  proof (intro allI impI)
    fix k :: int
    assume "0 \<le> k \<and> k < 2"
    then have "k = 0 \<or> k = 1" by auto
    then show "isl (scrapeFullArticle ((\<lambda>k. ''now'') k) ((\<lambda>k. ''now'') k) article_url
        (recovering k))"
      by (auto simp: scrape_recovering)
  qed
  note good = every_failure_is_retried [OF h, of malformed "''invalid URL escape''"
      "''now''" "''now''" article_url "\<lambda>k. ''now''" recovering 7 2
      "\<lparr>ID = ''360001'', Title = ''Getting started'', Body = ''<p>Press the button.</p>'',
        URL = article_url, CreatedAt = ''2024-05-06T07:08:09Z'',
        UpdatedAt = ''2024-05-06T07:08:09Z''\<rparr>"]
  from good early have w2: "worker main_config 7
      (\<lambda>k. scrapeFullArticle ''now'' ''now'' article_url (recovering k)) article_url =
     (\<lparr>Article = Some \<lparr>ID = ''360001'', Title = ''Getting started'',
                        Body = ''<p>Press the button.</p>'', URL = article_url,
                        CreatedAt = ''2024-05-06T07:08:09Z'',
                        UpdatedAt = ''2024-05-06T07:08:09Z''\<rparr>,
       Error = None, URL = article_url, Retries = 2\<rparr>,
      [Sleep (207 * Millisecond), Scrape article_url,
       Sleep (200 * Millisecond), Scrape article_url,
       Sleep (400 * Millisecond), Scrape article_url])"
    by (simp add: scrape_recovering main_config_def Intn_def wrap64_id Millisecond_def upt_rec)
  show ?thesis
    using h v err w1 w2 by (simp add: scrape_recovering)
qed

section \<open>Properties of the semaphore\<close>

lemma length_filter_update:
  "i < length xs \<Longrightarrow>
   length (filter P (xs[i := y])) + (if P (xs ! i) then 1 else 0) =
   length (filter P xs) + (if P y then 1 else 0)"
proof (induction xs arbitrary: i)
  case Nil
  then show ?case by simp
next
  case (Cons x xs)
  then show ?case by (cases i) auto
qed

lemma holding_update:
  "i < length (pcs s) \<Longrightarrow>
   holding (s\<lparr>pcs := (pcs s)[i := pc]\<rparr>) + (if holding_pc (pcs s ! i) then 1 else 0) =
   holding s + (if holding_pc pc then 1 else 0)"
  using length_filter_update [of i "pcs s" holding_pc pc] by (simp add: holding_def)

lemma holding_more [simp]:
  "holding (s\<lparr>semaphore := n\<rparr>) = holding s" "holding (s\<lparr>results := rs\<rparr>) = holding s"
  by (simp_all add: holding_def)

lemma in_flight_le_holding: "in_flight s \<le> holding s"
proof -
  have "length (filter in_flight_pc xs) \<le> length (filter holding_pc xs)" for xs
  proof (induction xs)
    case Nil
    then show ?case by simp
  next
    case (Cons x xs)
    then show ?case by (cases x) auto
  qed
  then show ?thesis by (simp add: in_flight_def holding_def)
qed

text \<open>The goroutines past the send and before the deferred receive are as many as the tokens in the buffer, which are no more than its capacity.\<close>

definition gate_invariant :: "Config \<Rightarrow> crawl \<Rightarrow> bool" where
  "gate_invariant config s \<longleftrightarrow>
     holding s = semaphore s \<and> int (semaphore s) \<le> FetchConcurrency config"

lemma gate_invariant_init:
  "fetchArticlesConcurrently articleURLs config = Some s0 \<Longrightarrow> gate_invariant config s0"
  by (auto simp: fetchArticlesConcurrently_def gate_invariant_def holding_def
      split: if_splits)

lemma gate_invariant_step:
  assumes "step articleURLs config s s'" and "gate_invariant config s"
  shows "gate_invariant config s'"
  using assms
proof (induction rule: step.induct)
  case (acquire i s)
  then show ?case
    using holding_update [of i s "Attempt 0 None"] by (simp add: gate_invariant_def)
next
  case (enter i s k e)
  then show ?case
    using holding_update [of i s "InFlight k e"] by (simp add: gate_invariant_def)
next
  case (exhausted i s k e)
  then show ?case
    using holding_update [of i s "Emit \<lparr>Article = None, Error = e, URL = articleURLs ! i,
                                      Retries = MaxRetries config\<rparr>"]
    by (simp add: gate_invariant_def)
next
  case (success i s k e article)
  then show ?case
    using holding_update [of i s "Emit \<lparr>Article = Some article, Error = None,
                                      URL = articleURLs ! i, Retries = k\<rparr>"]
    by (simp add: gate_invariant_def)
next
  case (failure i s k e err)
  then show ?case
    using holding_update [of i s "Attempt (k + 1) (Some err)"] by (simp add: gate_invariant_def)
next
  case (send i s r)
  then show ?case
    using holding_update [of i s Release] by (simp add: gate_invariant_def)
next
  case (release i s)
  then show ?case
    using holding_update [of i s Finished] by (auto simp: gate_invariant_def)
qed

lemma gate_invariant_reachable:
  assumes "rtranclp (step articleURLs config) s0 s" and "gate_invariant config s0"
  shows "gate_invariant config s"
  using assms by (induction rule: rtranclp_induct) (auto intro: gate_invariant_step)

text \<open>
  C1. In every state the crawl can reach, whatever the number of targets and whatever
  the order in which the goroutines run, the goroutines inside \<^verbatim>\<open>scrapeFullArticle\<close>
  are no more than \<^verbatim>\<open>FetchConcurrency\<close>: each of them holds a token of the semaphore,
  and the tokens held are the tokens in the buffer.
\<close>

theorem in_flight_bounded:
  assumes "fetchArticlesConcurrently articleURLs config = Some s0"
    and "rtranclp (step articleURLs config) s0 s"
  shows "int (in_flight s) \<le> FetchConcurrency config \<and>
         int (holding s) \<le> FetchConcurrency config \<and>
         holding s = semaphore s"
proof -
  have "gate_invariant config s"
    using assms gate_invariant_init gate_invariant_reachable by blast
  then show ?thesis
    using in_flight_le_holding [of s] by (simp add: gate_invariant_def)
qed

text \<open>Two targets and room for one: the first goroutine is fetching, the second waits.\<close>

definition one_at_a_time :: Config where
  "one_at_a_time = main_config\<lparr>FetchConcurrency := 1\<rparr>"

definition two_targets :: "string list" where
  "two_targets = [''https://example.com/a'', ''https://example.com/b'']"

definition first_in_flight :: crawl where
  "first_in_flight = \<lparr>pcs = [InFlight 0 None, Acquire], semaphore = 1, results = []\<rparr>"

lemma first_in_flight_reachable:
  "rtranclp (step two_targets one_at_a_time)
     \<lparr>pcs = [Acquire, Acquire], semaphore = 0, results = []\<rparr> first_in_flight"
proof -
  let ?s0 = "\<lparr>pcs = [Acquire, Acquire], semaphore = 0, results = []\<rparr>"
  let ?s1 = "\<lparr>pcs = [Attempt 0 None, Acquire], semaphore = 1, results = []\<rparr>"
  have "step two_targets one_at_a_time ?s0 ?s1"
    using step.acquire [of 0 ?s0 one_at_a_time two_targets]
    by (simp add: one_at_a_time_def main_config_def)
  moreover have "step two_targets one_at_a_time ?s1 first_in_flight"
    using step.enter [of 0 ?s1 0 None one_at_a_time two_targets]
    by (simp add: one_at_a_time_def main_config_def first_in_flight_def)
  ultimately show ?thesis by simp
qed

theorem in_flight_bounded_witness:
  "fetchArticlesConcurrently two_targets one_at_a_time =
     Some \<lparr>pcs = [Acquire, Acquire], semaphore = 0, results = []\<rparr> \<and>
   rtranclp (step two_targets one_at_a_time)
     \<lparr>pcs = [Acquire, Acquire], semaphore = 0, results = []\<rparr> first_in_flight \<and>
   in_flight first_in_flight = 1 \<and>
   int (in_flight first_in_flight) \<le> FetchConcurrency one_at_a_time"
proof -
  have init: "fetchArticlesConcurrently two_targets one_at_a_time =
     Some \<lparr>pcs = [Acquire, Acquire], semaphore = 0, results = []\<rparr>"
    by (simp add: fetchArticlesConcurrently_def two_targets_def one_at_a_time_def
        main_config_def)
  have "in_flight first_in_flight = 1"
    by (simp add: in_flight_def first_in_flight_def)
  then show ?thesis
    using in_flight_bounded [OF init first_in_flight_reachable] init first_in_flight_reachable
    by simp
qed

section \<open>Properties of the query compiler\<close>

lemma HasPrefix_dquote: "HasPrefix s dquote \<longleftrightarrow> s \<noteq> [] \<and> hd s = CHR 0x22"
  by (cases s) (auto simp: HasPrefix_def dquote_def)

lemma HasSuffix_dquote: "HasSuffix s dquote \<longleftrightarrow> s \<noteq> [] \<and> last s = CHR 0x22"
  by (cases s rule: rev_cases) (auto simp: HasSuffix_def dquote_def suffix_def)

lemma takeWhile_quotes:
  "takeWhile (\<lambda>c. c \<in> set dquote) s = replicate (length (takeWhile (\<lambda>c. c \<in> set dquote) s)) (CHR 0x22)"
proof -
  have "\<forall>c \<in> set (takeWhile (\<lambda>c. c \<in> set dquote) s). c = CHR 0x22"
    by (auto dest: set_takeWhileD simp: dquote_def)
  then show ?thesis
    by (simp add: replicate_length_same)
qed

lemma Trim_decompose:
  "\<exists>m n. s = replicate m (CHR 0x22) @ Trim s dquote @ replicate n (CHR 0x22)"
proof -
  let ?P = "\<lambda>c. c \<in> set dquote"
  let ?y = "dropWhile ?P s"
  have "rev ?y = takeWhile ?P (rev ?y) @ dropWhile ?P (rev ?y)"
    by simp
  then have "?y = Trim s dquote @ rev (takeWhile ?P (rev ?y))"
    unfolding Trim_def by (metis rev_append rev_rev_ident)
  moreover have "s = takeWhile ?P s @ ?y"
    by simp
  ultimately have "s = takeWhile ?P s @ Trim s dquote @ rev (takeWhile ?P (rev ?y))"
    by simp
  then have "s = replicate (length (takeWhile ?P s)) (CHR 0x22) @ Trim s dquote @
                 replicate (length (takeWhile ?P (rev ?y))) (CHR 0x22)"
    using takeWhile_quotes [of s] takeWhile_quotes [of "rev ?y"]
    by (metis rev_replicate)
  then show ?thesis by blast
qed

lemma Trim_no_quote_at_ends:
  "\<not> HasPrefix (Trim s dquote) dquote \<and> \<not> HasSuffix (Trim s dquote) dquote"
proof -
  let ?P = "\<lambda>c. c \<in> set dquote"
  let ?y = "dropWhile ?P s"
  let ?z = "dropWhile ?P (rev ?y)"
  have z: "?z \<noteq> [] \<Longrightarrow> hd ?z \<noteq> CHR 0x22"
    using hd_dropWhile [of ?P "rev ?y"] by (simp add: dquote_def)
  have y: "?y \<noteq> [] \<Longrightarrow> hd ?y \<noteq> CHR 0x22"
    using hd_dropWhile [of ?P s] by (simp add: dquote_def)
  have "rev ?y = takeWhile ?P (rev ?y) @ ?z"
    by simp
  then have "?y = rev ?z @ rev (takeWhile ?P (rev ?y))"
    by (metis rev_append rev_rev_ident)
  then have "rev ?z \<noteq> [] \<Longrightarrow> hd (rev ?z) = hd ?y \<and> ?y \<noteq> []"
    by (metis hd_append2 append_is_Nil_conv)
  with y have "rev ?z \<noteq> [] \<Longrightarrow> hd (rev ?z) \<noteq> CHR 0x22"
    by simp
  moreover have "rev ?z \<noteq> [] \<Longrightarrow> last (rev ?z) \<noteq> CHR 0x22"
    using z by (simp add: last_rev)
  ultimately show ?thesis
    unfolding HasPrefix_dquote HasSuffix_dquote Trim_def by blast
qed

lemma Trim_two_pairs:
  assumes "\<not> HasPrefix phrase dquote" and "\<not> HasSuffix phrase dquote"
  shows "Trim (dquote @ dquote @ phrase @ dquote @ dquote) dquote = phrase"
proof (cases "phrase = []")
  case True
  then show ?thesis by (simp add: Trim_def dquote_def)
next
  case False
  with assms have h: "hd phrase \<noteq> CHR 0x22" and l: "last phrase \<noteq> CHR 0x22"
    by (simp_all add: HasPrefix_dquote HasSuffix_dquote)
  from False h have "dropWhile (\<lambda>c. c \<in> set dquote) (dquote @ dquote @ phrase @ dquote @ dquote)
      = phrase @ dquote @ dquote"
    by (cases phrase) (simp_all add: dquote_def)
  moreover from False l have "dropWhile (\<lambda>c. c \<in> set dquote) (rev (phrase @ dquote @ dquote))
      = rev phrase"
    by (cases phrase rule: rev_cases) (simp_all add: dquote_def)
  ultimately show ?thesis by (simp add: Trim_def)
qed

text \<open>
  C10. A query that begins and ends with a double quote compiles to the strict phrase
  request for the query without its leading and trailing double quotes, all of them:
  the query is what is left between two runs of double quotes, and what is left
  neither begins nor ends with one. The query of one double quote is such a query and
  compiles to the phrase request for the empty string; a phrase between two pairs of
  double quotes compiles to the phrase request for the phrase itself.
\<close>

theorem quote_detection:
  "(HasPrefix query dquote \<and> HasSuffix query dquote \<longrightarrow>
      buildEnhancedQuery query from size' = buildPhraseQuery (Trim query dquote) from size' \<and>
      path [''query'', ''multi_match'', ''query''] (buildEnhancedQuery query from size') =
        Some (JString (Trim query dquote)) \<and>
      (\<exists>m n. query = replicate m (CHR 0x22) @ Trim query dquote @ replicate n (CHR 0x22)) \<and>
      \<not> HasPrefix (Trim query dquote) dquote \<and> \<not> HasSuffix (Trim query dquote) dquote) \<and>
   buildEnhancedQuery dquote from size' = buildPhraseQuery [] from size' \<and>
   (\<not> HasPrefix phrase dquote \<and> \<not> HasSuffix phrase dquote \<longrightarrow>
      buildEnhancedQuery (dquote @ dquote @ phrase @ dquote @ dquote) from size' =
        buildPhraseQuery phrase from size')"
proof (intro conjI impI)
  assume q: "HasPrefix query dquote \<and> HasSuffix query dquote"
  then show eq: "buildEnhancedQuery query from size' =
      buildPhraseQuery (Trim query dquote) from size'"
    by (simp add: buildEnhancedQuery_def)
  show "path [''query'', ''multi_match'', ''query''] (buildEnhancedQuery query from size') =
        Some (JString (Trim query dquote))"
    by (simp add: eq buildPhraseQuery_def)
  show "\<exists>m n. query = replicate m (CHR 0x22) @ Trim query dquote @ replicate n (CHR 0x22)"
    by (rule Trim_decompose)
  show "\<not> HasPrefix (Trim query dquote) dquote" "\<not> HasSuffix (Trim query dquote) dquote"
    using Trim_no_quote_at_ends by simp_all
next
  show "buildEnhancedQuery dquote from size' = buildPhraseQuery [] from size'"
    by (simp add: buildEnhancedQuery_def HasPrefix_def HasSuffix_def Trim_def dquote_def)
next
  assume t: "\<not> HasPrefix phrase dquote \<and> \<not> HasSuffix phrase dquote"
  have "HasPrefix (dquote @ dquote @ phrase @ dquote @ dquote) dquote"
    by (simp add: HasPrefix_def dquote_def)
  moreover have "HasSuffix (dquote @ dquote @ phrase @ dquote @ dquote) dquote"
    by (simp add: HasSuffix_def suffix_def dquote_def)
  ultimately show "buildEnhancedQuery (dquote @ dquote @ phrase @ dquote @ dquote) from size' =
        buildPhraseQuery phrase from size'"
    using t by (simp add: buildEnhancedQuery_def Trim_two_pairs)
qed

theorem quote_detection_witness:
  "HasPrefix (dquote @ dquote @ ''exact phrase'' @ dquote @ dquote) dquote \<and>
   HasSuffix (dquote @ dquote @ ''exact phrase'' @ dquote @ dquote) dquote \<and>
   Trim (dquote @ dquote @ ''exact phrase'' @ dquote @ dquote) dquote = ''exact phrase'' \<and>
   buildEnhancedQuery (dquote @ dquote @ ''exact phrase'' @ dquote @ dquote) 0 10 =
     buildPhraseQuery ''exact phrase'' 0 10 \<and>
   path [''query'', ''multi_match'', ''query'']
     (buildEnhancedQuery (dquote @ dquote @ ''exact phrase'' @ dquote @ dquote) 0 10) =
     Some (JString ''exact phrase'') \<and>
   buildEnhancedQuery dquote 0 10 = buildPhraseQuery [] 0 10"
proof -
  have p: "HasPrefix (dquote @ dquote @ ''exact phrase'' @ dquote @ dquote) dquote"
    by (simp add: HasPrefix_def dquote_def)
  have s: "HasSuffix (dquote @ dquote @ ''exact phrase'' @ dquote @ dquote) dquote"
    by (simp add: HasSuffix_def suffix_def dquote_def)
  have t: "Trim (dquote @ dquote @ ''exact phrase'' @ dquote @ dquote) dquote = ''exact phrase''"
    by (simp add: Trim_def dquote_def)
  note q = quote_detection [of "dquote @ dquote @ ''exact phrase'' @ dquote @ dquote" 0 10
      "''exact phrase''"]
  from q p s have a: "buildEnhancedQuery (dquote @ dquote @ ''exact phrase'' @ dquote @ dquote) 0 10 =
      buildPhraseQuery (Trim (dquote @ dquote @ ''exact phrase'' @ dquote @ dquote) dquote) 0 10"
    and b: "path [''query'', ''multi_match'', ''query'']
      (buildEnhancedQuery (dquote @ dquote @ ''exact phrase'' @ dquote @ dquote) 0 10) =
      Some (JString (Trim (dquote @ dquote @ ''exact phrase'' @ dquote @ dquote) dquote))"
    by blast+
  from q have c: "buildEnhancedQuery dquote 0 10 = buildPhraseQuery [] 0 10"
    by blast
  show ?thesis
    using p s t a [unfolded t] b [unfolded t] c by blast
qed

text \<open>
  C5 as the specification states it: a query of two or more characters that begins
  and ends with a double quote compiles to the strict phrase request for the query
  without that pair, and every other query compiles to the blended request.
\<close>

definition wrapped_in_quote_pair :: "string \<Rightarrow> bool" where
  "wrapped_in_quote_pair query \<longleftrightarrow>
     2 \<le> length query \<and> hd query = CHR 0x22 \<and> last query = CHR 0x22"

definition compile_as_specified :: "string \<Rightarrow> int \<Rightarrow> int \<Rightarrow> json" where
  "compile_as_specified query from size' =
     (if wrapped_in_quote_pair query then buildPhraseQuery (butlast (tl query)) from size'
      else blended_request query from size')"

theorem lone_quote_counterexample:
  "\<not> wrapped_in_quote_pair dquote \<and>
   buildEnhancedQuery dquote 0 10 = buildPhraseQuery [] 0 10 \<and>
   buildEnhancedQuery dquote 0 10 \<noteq> compile_as_specified dquote 0 10"
  by (simp add: wrapped_in_quote_pair_def compile_as_specified_def buildEnhancedQuery_def
      HasPrefix_def HasSuffix_def Trim_def dquote_def buildPhraseQuery_def blended_request_def)

text \<open>
  C5, amended. A query that begins and ends with a double quote, the query of one
  double quote among them, compiles to the strict phrase request for the query
  without its leading and trailing double quotes: an exact phrase match on the title
  with weight 3 and the body with weight 1, sorted by score and then by the time of
  the last update, both descending, with highlighting on both fields. Every other
  query compiles to the blended request: the phrase, the fuzzy and the phrase-prefix
  strategies under \<^verbatim>\<open>should\<close> with \<^verbatim>\<open>minimum_should_match\<close> 1, multiplied by a
  Gaussian decay on the time of the last update with a scale of 30 days.
\<close>

theorem compile_by_quotes:
  "(HasPrefix query dquote \<and> HasSuffix query dquote \<longrightarrow>
      path [''query'', ''multi_match'', ''query''] (buildEnhancedQuery query from size') =
        Some (JString (Trim query dquote)) \<and>
      path [''query'', ''multi_match'', ''fields''] (buildEnhancedQuery query from size') =
        Some (JArray [JString ''title^3'', JString ''body^1'']) \<and>
      path [''query'', ''multi_match'', ''type''] (buildEnhancedQuery query from size') =
        Some (JString ''phrase'') \<and>
      field ''sort'' (buildEnhancedQuery query from size') =
        Some (JArray
          [JObject [(''_score'', JObject [(''order'', JString ''desc'')])],
           JObject [(''updated_at'', JObject [(''order'', JString ''desc'')])]]) \<and>
      path [''highlight'', ''fields''] (buildEnhancedQuery query from size') =
        Some (JObject [(''title'', JObject []), (''body'', JObject [])]) \<and>
      field ''from'' (buildEnhancedQuery query from size') = Some (JInt from) \<and>
      field ''size'' (buildEnhancedQuery query from size') = Some (JInt size')) \<and>
   (\<not> (HasPrefix query dquote \<and> HasSuffix query dquote) \<longrightarrow>
      path [''query'', ''function_score'', ''query'', ''bool'', ''should'']
          (buildEnhancedQuery query from size') =
        Some (JArray
          [JObject [(''multi_match'', JObject
             [(''query'', JString query),
              (''fields'', JArray [JString ''title^5'', JString ''body^2'']),
              (''type'', JString ''phrase''),
              (''boost'', JInt 10)])],
           JObject [(''multi_match'', JObject
             [(''query'', JString query),
              (''fields'', JArray [JString ''title^3'', JString ''body^1'']),
              (''fuzziness'', JString ''AUTO''),
              (''boost'', JInt 5)])],
           JObject [(''multi_match'', JObject
             [(''query'', JString query),
              (''fields'', JArray [JString ''title^2'', JString ''body^1'']),
              (''type'', JString ''phrase_prefix''),
              (''boost'', JInt 3)])]]) \<and>
      path [''query'', ''function_score'', ''query'', ''bool'', ''minimum_should_match'']
          (buildEnhancedQuery query from size') = Some (JInt 1) \<and>
      path [''query'', ''function_score'', ''boost_mode''] (buildEnhancedQuery query from size') =
        Some (JString ''multiply'') \<and>
      path [''query'', ''function_score'', ''functions''] (buildEnhancedQuery query from size') =
        Some (JArray
          [JObject
             [(''gauss'', JObject
                [(''updated_at'', JObject
                   [(''scale'', JString ''30d''), (''decay'', JNumber (1 / 2))])]),
              (''weight'', JNumber (12 / 10))]]) \<and>
      field ''from'' (buildEnhancedQuery query from size') = Some (JInt from) \<and>
      field ''size'' (buildEnhancedQuery query from size') = Some (JInt size'))"
proof (intro conjI impI)
  assume "HasPrefix query dquote \<and> HasSuffix query dquote"
  then have eq: "buildEnhancedQuery query from size' =
      buildPhraseQuery (Trim query dquote) from size'"
    by (simp add: buildEnhancedQuery_def)
  show "path [''query'', ''multi_match'', ''query''] (buildEnhancedQuery query from size') =
        Some (JString (Trim query dquote))"
    by (simp add: eq buildPhraseQuery_def)
  show "path [''query'', ''multi_match'', ''fields''] (buildEnhancedQuery query from size') =
        Some (JArray [JString ''title^3'', JString ''body^1''])"
    by (simp add: eq buildPhraseQuery_def)
  show "path [''query'', ''multi_match'', ''type''] (buildEnhancedQuery query from size') =
        Some (JString ''phrase'')"
    by (simp add: eq buildPhraseQuery_def)
  show "field ''sort'' (buildEnhancedQuery query from size') =
        Some (JArray
          [JObject [(''_score'', JObject [(''order'', JString ''desc'')])],
           JObject [(''updated_at'', JObject [(''order'', JString ''desc'')])]])"
    by (simp add: eq buildPhraseQuery_def)
  show "path [''highlight'', ''fields''] (buildEnhancedQuery query from size') =
        Some (JObject [(''title'', JObject []), (''body'', JObject [])])"
    by (simp add: eq buildPhraseQuery_def)
  show "field ''from'' (buildEnhancedQuery query from size') = Some (JInt from)"
    by (simp add: eq buildPhraseQuery_def)
  show "field ''size'' (buildEnhancedQuery query from size') = Some (JInt size')"
    by (simp add: eq buildPhraseQuery_def)
next
  assume "\<not> (HasPrefix query dquote \<and> HasSuffix query dquote)"
  then have eq: "buildEnhancedQuery query from size' = blended_request query from size'"
    by (auto simp: buildEnhancedQuery_def)
  show "path [''query'', ''function_score'', ''query'', ''bool'', ''should'']
          (buildEnhancedQuery query from size') =
        Some (JArray
          [JObject [(''multi_match'', JObject
             [(''query'', JString query),
              (''fields'', JArray [JString ''title^5'', JString ''body^2'']),
              (''type'', JString ''phrase''),
              (''boost'', JInt 10)])],
           JObject [(''multi_match'', JObject
             [(''query'', JString query),
              (''fields'', JArray [JString ''title^3'', JString ''body^1'']),
              (''fuzziness'', JString ''AUTO''),
              (''boost'', JInt 5)])],
           JObject [(''multi_match'', JObject
             [(''query'', JString query),
              (''fields'', JArray [JString ''title^2'', JString ''body^1'']),
              (''type'', JString ''phrase_prefix''),
              (''boost'', JInt 3)])]])"
    by (simp add: eq blended_request_def)
  show "path [''query'', ''function_score'', ''query'', ''bool'', ''minimum_should_match'']
          (buildEnhancedQuery query from size') = Some (JInt 1)"
    by (simp add: eq blended_request_def)
  show "path [''query'', ''function_score'', ''boost_mode''] (buildEnhancedQuery query from size') =
        Some (JString ''multiply'')"
    by (simp add: eq blended_request_def)
  show "path [''query'', ''function_score'', ''functions''] (buildEnhancedQuery query from size') =
        Some (JArray
          [JObject
             [(''gauss'', JObject
                [(''updated_at'', JObject
                   [(''scale'', JString ''30d''), (''decay'', JNumber (1 / 2))])]),
              (''weight'', JNumber (12 / 10))]])"
    by (simp add: eq blended_request_def)
  show "field ''from'' (buildEnhancedQuery query from size') = Some (JInt from)"
    by (simp add: eq blended_request_def)
  show "field ''size'' (buildEnhancedQuery query from size') = Some (JInt size')"
    by (simp add: eq blended_request_def)
qed

theorem compile_by_quotes_witness:
  "HasPrefix (dquote @ ''exact phrase'' @ dquote) dquote \<and>
   HasSuffix (dquote @ ''exact phrase'' @ dquote) dquote \<and>
   path [''query'', ''multi_match'', ''query'']
     (buildEnhancedQuery (dquote @ ''exact phrase'' @ dquote) 0 10) =
     Some (JString ''exact phrase'') \<and>
   path [''query'', ''multi_match'', ''type'']
     (buildEnhancedQuery (dquote @ ''exact phrase'' @ dquote) 0 10) = Some (JString ''phrase'') \<and>
   \<not> HasPrefix ''exact phrase'' dquote \<and>
   path [''query'', ''function_score'', ''boost_mode''] (buildEnhancedQuery ''exact phrase'' 0 10) =
     Some (JString ''multiply'') \<and>
   path [''query'', ''function_score'', ''query'', ''bool'', ''minimum_should_match'']
     (buildEnhancedQuery ''exact phrase'' 0 10) = Some (JInt 1)"
proof -
  have p: "HasPrefix (dquote @ ''exact phrase'' @ dquote) dquote"
    by (simp add: HasPrefix_def dquote_def)
  have s: "HasSuffix (dquote @ ''exact phrase'' @ dquote) dquote"
    by (simp add: HasSuffix_def suffix_def dquote_def)
  have t: "Trim (dquote @ ''exact phrase'' @ dquote) dquote = ''exact phrase''"
    by (simp add: Trim_def dquote_def)
  have n: "\<not> HasPrefix ''exact phrase'' dquote"
    by (simp add: HasPrefix_def dquote_def)
  note quoted = compile_by_quotes [of "dquote @ ''exact phrase'' @ dquote" 0 10]
  note plain = compile_by_quotes [of "''exact phrase''" 0 10]
  from quoted p s have a: "path [''query'', ''multi_match'', ''query'']
     (buildEnhancedQuery (dquote @ ''exact phrase'' @ dquote) 0 10) =
     Some (JString (Trim (dquote @ ''exact phrase'' @ dquote) dquote))"
    and b: "path [''query'', ''multi_match'', ''type'']
     (buildEnhancedQuery (dquote @ ''exact phrase'' @ dquote) 0 10) = Some (JString ''phrase'')"
    by blast+
  from plain n have c: "path [''query'', ''function_score'', ''boost_mode'']
      (buildEnhancedQuery ''exact phrase'' 0 10) = Some (JString ''multiply'')"
    and d: "path [''query'', ''function_score'', ''query'', ''bool'', ''minimum_should_match'']
     (buildEnhancedQuery ''exact phrase'' 0 10) = Some (JInt 1)"
    by blast+
  show ?thesis
    using p s n a [unfolded t] b c d by blast
qed

section \<open>Properties of the search facade\<close>

lemma fmdom_getCachedResult:
  "fmdom (snd (getCachedResult now key cache)) |\<subseteq>| fmdom cache"
  by (auto simp: getCachedResult_def split: option.splits)

text \<open>
  An error of \<^verbatim>\<open>client.Post\<close> or of the decoder is returned, and the cache is left as
  the lookup left it.
\<close>

lemma engine_error_not_cached:
  assumes "post (buildEnhancedQuery query from size') = Inl err \<or>
           (\<exists>resp. post (buildEnhancedQuery query from size') = Inr resp \<and>
                   decode (ResponseBody resp) = Inl err)"
    and "\<not> snd (fst (getCachedResult now1
              (md5hex (query @ ''-'' @ fmt_d from @ ''-'' @ fmt_d size')) cache))"
  shows "searchElasticsearch md5hex post decode now1 now2 query from size' cache =
           (Inl err, snd (getCachedResult now1
              (md5hex (query @ ''-'' @ fmt_d from @ ''-'' @ fmt_d size')) cache))"
  using assms
  by (auto simp: searchElasticsearch_def Let_def split: prod.splits sum.splits)

text \<open>An engine that answers every request with the status 503 and a JSON body that tells the error, and what the decoder makes of a body without hits.\<close>

definition quoted :: "string \<Rightarrow> string" where
  "quoted s = dquote @ s @ dquote"

definition unavailable :: "json \<Rightarrow> string + HTTPResponse" where
  "unavailable request =
     Inr \<lparr>StatusCode = 503,
          ResponseBody = ''{'' @ quoted ''error'' @ '':{},'' @ quoted ''status'' @ '':503}''\<rparr>"

definition decode_without_hits :: "string \<Rightarrow> string + SearchResponse" where
  "decode_without_hits body = Inr \<lparr>Hits_Total_Value = 0, Hits_Hits = []\<rparr>"

lemma fmt_d_examples: "fmt_d 0 = ''0''" "fmt_d 10 = ''10''"
  by code_simp+

text \<open>
  C8 fails on the code. A response with the status 503 is no error of \<^verbatim>\<open>client.Post\<close>,
  and its body decodes without an error into a response with no hits: the search
  returns no articles, a total of 0 and no error, and stores that empty result under
  the key of the query.
\<close>

theorem failed_lookup_is_cached:
  "searchElasticsearch md5hex unavailable decode_without_hits 0 1 ''reset password'' 0 10 fmempty =
     (Inr ([], 0),
      fmupd (md5hex ''reset password-0-10'')
        \<lparr>Result = SearchResult_zero, Timestamp = 1\<rparr> fmempty)"
  by (simp add: searchElasticsearch_def getCachedResult_def cacheResult_def len_def
      unavailable_def decode_without_hits_def fmt_d_examples SearchResult_zero_def
      fcard_fempty)

end
